theory Spec2Isabelle
  imports Complex_Main
begin

section \<open>Data model of the game context\<close>

text \<open>
  The game core is the React context provider \<^verbatim>\<open>GameProvider\<close>: every operation is a state
  updater \<^verbatim>\<open>prev => next\<close> handed to \<^verbatim>\<open>setGameState\<close>. Each updater is embedded as a
  function from the previous snapshot to the next one.

  Grid coordinates are integer-valued JavaScript numbers and are modelled as \<^typ>\<open>int\<close>.
  An updater that raises (reading a property of \<^verbatim>\<open>undefined\<close>, destructuring or spreading
  \<^verbatim>\<open>undefined\<close>) returns \<open>Inl TypeError\<close>.
\<close>

type_synonym Position = "int \<times> int"

datatype Direction = UP | DOWN | LEFT | RIGHT

datatype GameMode = SINGLE | MULTIPLAYER | AI_VS_AI

record Snake =
  body :: "Position list"
  direction :: Direction

text \<open>
  A score slot is a JavaScript number. \<^verbatim>\<open>newScores[i] += 1\<close> on a slot that does not exist
  reads \<^verbatim>\<open>undefined\<close>, stores \<^verbatim>\<open>NaN\<close> and extends the array, so the two non-integer
  values a slot can hold are part of the type.
\<close>

datatype jsnumber = Num int | NaN | Undefined

text \<open>
  The interface \<^verbatim>\<open>GameState\<close> also declares \<^verbatim>\<open>powerUps\<close>, \<^verbatim>\<open>snakeEffects\<close> and
  \<^verbatim>\<open>lastPowerUpSpawn\<close>. No function of the provider sets or reads them; every updater
  copies them with \<^verbatim>\<open>...prev\<close>, as a record update copies the fields it does not name.
\<close>

record GameState =
  isRunning :: bool
  snakes :: "Snake list"
  food :: "Position list"
  scores :: "jsnumber list"
  speed :: int
  snakeColors :: "string \<times> string"
  gameMode :: GameMode

datatype error = TypeError

definition GRID_WIDTH :: int where
  "GRID_WIDTH = 40"

definition GRID_HEIGHT :: int where
  "GRID_HEIGHT = 30"

section \<open>Random positions and food generation\<close>

text \<open>
  \<^verbatim>\<open>Math.random()\<close> yields a double \<open>u\<close> with \<open>0 \<le> u < 1\<close>. One call of
  \<^verbatim>\<open>generateRandomPosition\<close> consumes two such numbers; a \<open>draw\<close> is that pair. The
  generator is an input of the model: the list of draws holds, in order, the pairs the
  generator hands out during one operation. A double is modelled by the rational it denotes.
\<close>

type_synonym draw = "rat \<times> rat"

text \<open>
  \<^verbatim>\<open>Math.random() * GRID_WIDTH\<close> is a double multiplication: the exact product rounded to
  the nearest double, ties to the even significand. \<open>spacing n hi x\<close> is the distance
  between neighbouring doubles around \<open>x\<close>, for \<open>0 \<le> x < hi\<close> and \<open>hi\<close> a power of two:
  \<open>hi / 2 ^ 53\<close> in the binade \<open>[hi / 2, hi)\<close>, found by halving \<open>hi\<close>; the count \<open>n\<close>
  stops the halving at the subnormal spacing \<open>2 ^ - 1074\<close>. \<open>roundToDouble\<close> covers
  \<open>0 \<le> x < 64\<close>, which holds every product of a number in \<open>[0, 1)\<close> with 40 or 30.
\<close>

definition roundHalfEven :: "rat \<Rightarrow> int" where
  "roundHalfEven q =
     (let n = \<lfloor>q\<rfloor>; r = q - of_int n
      in if r < 1 / 2 then n else if 1 / 2 < r then n + 1
         else if even n then n else n + 1)"

fun spacing :: "nat \<Rightarrow> rat \<Rightarrow> rat \<Rightarrow> rat" where
  "spacing 0 hi x = hi / 2 ^ 53"
| "spacing (Suc n) hi x =
     (if hi / 2 \<le> x then hi / 2 ^ 53 else spacing n (hi / 2) x)"

definition roundToDouble :: "rat \<Rightarrow> rat" where
  "roundToDouble x =
     (let ulp = spacing 1027 64 x in of_int (roundHalfEven (x / ulp)) * ulp)"

text \<open>What \<^verbatim>\<open>Math.random()\<close> may return: a double that is at least 0 and less than 1.\<close>

definition isRandomNumber :: "rat \<Rightarrow> bool" where
  "isRandomNumber u \<longleftrightarrow> 0 \<le> u \<and> u < 1 \<and> roundToDouble u = u"

definition validDraw :: "draw \<Rightarrow> bool" where
  "validDraw d \<longleftrightarrow> isRandomNumber (fst d) \<and> isRandomNumber (snd d)"

definition generateRandomPosition :: "draw \<Rightarrow> Position" where
  "generateRandomPosition d =
     (\<lfloor>roundToDouble (fst d * of_int GRID_WIDTH)\<rfloor>,
      \<lfloor>roundToDouble (snd d * of_int GRID_HEIGHT)\<rfloor>)"

definition isPositionOccupied :: "Position \<Rightarrow> Snake list \<Rightarrow> Position list \<Rightarrow> bool" where
  "isPositionOccupied position sns foods =
     (let occupiedBySnake =
            list_ex (\<lambda>snake. list_ex (\<lambda>(sx, sy). sx = fst position \<and> sy = snd position)
                                      (body snake)) sns;
          occupiedByFood =
            list_ex (\<lambda>(fx, fy). fx = fst position \<and> fy = snd position) foods
      in occupiedBySnake \<or> occupiedByFood)"

text \<open>
  The \<^verbatim>\<open>do ... while\<close> loop of \<^verbatim>\<open>generateFood\<close> redraws until the position is free and
  has no iteration cap. The draws are its fuel: \<open>None\<close> says that every draw supplied was
  rejected, so the loop has not returned.
\<close>

fun generateFood :: "Snake list \<Rightarrow> Position list \<Rightarrow> draw list \<Rightarrow> Position option" where
  "generateFood sns foods [] = None"
| "generateFood sns foods (d # ds) =
     (let position = generateRandomPosition d
      in if isPositionOccupied position sns foods then generateFood sns foods ds
         else Some position)"

section \<open>Initial state and start\<close>

definition initialSnakes :: "Snake list" where
  "initialSnakes =
     [\<lparr>body = [(5, 5)], direction = RIGHT\<rparr>,
      \<lparr>body = [(GRID_WIDTH - 6, GRID_HEIGHT - 6)], direction = LEFT\<rparr>]"

definition createInitialState :: "GameMode \<Rightarrow> draw list \<Rightarrow> GameState option" where
  "createInitialState mode draws =
     (case generateFood initialSnakes [] draws of
        None \<Rightarrow> None
      | Some f \<Rightarrow>
          Some \<lparr>isRunning = False, snakes = initialSnakes, food = [f],
                scores = [Num 0, Num 0], speed = 100,
                snakeColors = (''#4ade80'', ''#60a5fa''), gameMode = mode\<rparr>)"

definition startGame :: "GameMode \<Rightarrow> draw list \<Rightarrow> GameState \<Rightarrow> GameState option" where
  "startGame mode draws prev =
     (case createInitialState mode draws of
        None \<Rightarrow> None
      | Some init \<Rightarrow>
          Some (init\<lparr>speed := speed prev, snakeColors := snakeColors prev,
                     isRunning := True\<rparr>))"

section \<open>Input operations\<close>

definition setFoodPosition :: "Position \<Rightarrow> GameState \<Rightarrow> GameState" where
  "setFoodPosition position prev =
     (if \<not> isRunning prev then prev
      else if isPositionOccupied position (snakes prev) (food prev) then prev
      else prev\<lparr>food := food prev @ [position]\<rparr>)"

fun opposites :: "Direction \<Rightarrow> Direction" where
  "opposites UP = DOWN"
| "opposites DOWN = UP"
| "opposites LEFT = RIGHT"
| "opposites RIGHT = LEFT"

text \<open>
  \<^verbatim>\<open>prev.snakes[snakeIndex]\<close> is \<^verbatim>\<open>undefined\<close> for an index outside the array, and reading
  \<^verbatim>\<open>snake.direction\<close> then raises. The index is a JavaScript number, here an integer.
\<close>

definition setSnakeDirection :: "int \<Rightarrow> Direction \<Rightarrow> GameState \<Rightarrow> error + GameState" where
  "setSnakeDirection snakeIndex dir prev =
     (if 0 \<le> snakeIndex \<and> snakeIndex < int (length (snakes prev)) then
        (let snake = snakes prev ! nat snakeIndex
         in if opposites (direction snake) = dir then Inr prev
            else
              (let newSnakes =
                     map (\<lambda>(index, s). if int index = snakeIndex then s\<lparr>direction := dir\<rparr> else s)
                         (enumerate 0 (snakes prev))
               in Inr (prev\<lparr>snakes := newSnakes\<rparr>)))
      else Inl TypeError)"

section \<open>The greedy direction heuristic\<close>

definition isSafeMove :: "Position \<Rightarrow> Snake list \<Rightarrow> bool" where
  "isSafeMove position sns =
     (case position of (x, y) \<Rightarrow>
        if x < 0 \<or> x \<ge> GRID_WIDTH \<or> y < 0 \<or> y \<ge> GRID_HEIGHT then False
        else \<not> list_ex (\<lambda>snake. list_ex (\<lambda>(sx, sy). sx = x \<and> sy = y) (body snake)) sns)"

fun getNextPosition :: "Position \<Rightarrow> Direction \<Rightarrow> Position" where
  "getNextPosition (x, y) UP = (x, y - 1)"
| "getNextPosition (x, y) DOWN = (x, y + 1)"
| "getNextPosition (x, y) LEFT = (x - 1, y)"
| "getNextPosition (x, y) RIGHT = (x + 1, y)"

definition manhattan :: "Position \<Rightarrow> Position \<Rightarrow> int" where
  "manhattan p q = \<bar>fst p - fst q\<bar> + \<bar>snd p - snd q\<bar>"

text \<open>
  \<^verbatim>\<open>foodList.reduce(..., foodList[0])\<close>: the fold starts from the first item and visits
  every item, the first included; a later item replaces the current one only when it is
  strictly closer to the head.
\<close>

definition targetFood :: "Position \<Rightarrow> Position \<Rightarrow> Position list \<Rightarrow> Position" where
  "targetFood head f0 foodList =
     foldl (\<lambda>prev curr. if manhattan curr head < manhattan prev head then curr else prev)
           f0 foodList"

definition validDirections :: "Snake \<Rightarrow> Snake \<Rightarrow> Position \<Rightarrow> Direction list" where
  "validDirections snake otherSnake head =
     filter (\<lambda>dir. dir \<noteq> opposites (direction snake)
                    \<and> isSafeMove (getNextPosition head dir) [snake, otherSnake])
            [UP, DOWN, LEFT, RIGHT]"

definition filteredDirections :: "Position \<Rightarrow> Position \<Rightarrow> Direction list \<Rightarrow> Direction list" where
  "filteredDirections head predictedOtherHead valid =
     filter (\<lambda>dir. let candidate = getNextPosition head dir
                    in fst candidate \<noteq> fst predictedOtherHead
                       \<or> snd candidate \<noteq> snd predictedOtherHead)
            valid"

text \<open>
  \<^verbatim>\<open>directionScores.reduce(...)\<close> has no initial value: the first candidate is the first
  best, and a later one replaces it only on a strictly greater score.
\<close>

definition directionScore :: "Position \<Rightarrow> Position \<Rightarrow> Direction \<Rightarrow> Direction \<times> int" where
  "directionScore head target dir = (dir, - manhattan (getNextPosition head dir) target)"

definition bestDirection :: "(Direction \<times> int) \<Rightarrow> (Direction \<times> int) list \<Rightarrow> Direction" where
  "bestDirection first others =
     fst (foldl (\<lambda>best current. if snd current > snd best then current else best) first others)"

text \<open>
  An empty body (\<^verbatim>\<open>head\<close> undefined), an empty food list (\<^verbatim>\<open>targetFood\<close> undefined) and
  an empty body of the other snake each end in a destructuring of \<^verbatim>\<open>undefined\<close>, which
  raises.
\<close>

definition getNextDirection :: "Snake \<Rightarrow> Position list \<Rightarrow> Snake \<Rightarrow> error + Direction" where
  "getNextDirection snake foodList otherSnake =
     (case body snake of
        [] \<Rightarrow> Inl TypeError
      | head # _ \<Rightarrow>
          (case foodList of
             [] \<Rightarrow> Inl TypeError
           | f0 # _ \<Rightarrow>
               (case body otherSnake of
                  [] \<Rightarrow> Inl TypeError
                | otherHead # _ \<Rightarrow>
                    (let target = targetFood head f0 foodList;
                         valid = validDirections snake otherSnake head;
                         predictedOtherHead = getNextPosition otherHead (direction otherSnake);
                         filtered = filteredDirections head predictedOtherHead valid;
                         final = (if filtered \<noteq> [] then filtered else valid)
                     in case final of
                          [] \<Rightarrow> Inr (direction snake)
                        | d0 # ds \<Rightarrow>
                            Inr (bestDirection (directionScore head target d0)
                                               (map (directionScore head target) ds))))))"

section \<open>One tick\<close>

subsection \<open>Direction resolution\<close>

text \<open>
  In \<^verbatim>\<open>AI_VS_AI\<close> mode every snake gets a new direction, computed against
  \<^verbatim>\<open>prev.snakes[index === 0 ? 1 : 0]\<close>. When that slot does not exist the other snake is
  \<^verbatim>\<open>undefined\<close>, and every path through \<^verbatim>\<open>getNextDirection\<close> then raises: inside
  \<^verbatim>\<open>isSafeMove\<close> when a candidate cell is in the grid and off the snake's own body, and at
  \<^verbatim>\<open>otherSnake.body[0]\<close> otherwise.
\<close>

definition aiDirection :: "Snake list \<Rightarrow> Position list \<Rightarrow> nat \<times> Snake \<Rightarrow> error + Snake" where
  "aiDirection prevSnakes foodList = (\<lambda>(index, snake).
     (let otherIndex = (if index = 0 then 1 else 0)
      in if otherIndex < length prevSnakes then
           (case getNextDirection snake foodList (prevSnakes ! otherIndex) of
              Inl e \<Rightarrow> Inl e
            | Inr newDirection \<Rightarrow> Inr (snake\<lparr>direction := newDirection\<rparr>))
         else Inl TypeError))"

fun collect :: "(error + 'a) list \<Rightarrow> error + 'a list" where
  "collect [] = Inr []"
| "collect (r # rs) =
     (case r of
        Inl e \<Rightarrow> Inl e
      | Inr x \<Rightarrow> (case collect rs of Inl e \<Rightarrow> Inl e | Inr xs \<Rightarrow> Inr (x # xs)))"

text \<open>
  In \<^verbatim>\<open>SINGLE\<close> mode only \<^verbatim>\<open>snakes[1]\<close> is recomputed, against \<^verbatim>\<open>snakes[0]\<close>; with fewer
  than two snakes \<^verbatim>\<open>getNextDirection\<close> is called on \<^verbatim>\<open>undefined\<close> and raises. (The source
  writes the new snake into the array it shares with \<^verbatim>\<open>prev\<close>; nothing reads
  \<^verbatim>\<open>prev.snakes\<close> afterwards, so the next snapshot is the one computed here.)
\<close>

definition resolveDirections :: "GameState \<Rightarrow> error + Snake list" where
  "resolveDirections prev =
     (case gameMode prev of
        AI_VS_AI \<Rightarrow>
          collect (map (aiDirection (snakes prev) (food prev)) (enumerate 0 (snakes prev)))
      | SINGLE \<Rightarrow>
          (case snakes prev of
             humanSnake # aiSnake # rest \<Rightarrow>
               (case getNextDirection aiSnake (food prev) humanSnake of
                  Inl e \<Rightarrow> Inl e
                | Inr newDirection \<Rightarrow>
                    Inr (humanSnake # aiSnake\<lparr>direction := newDirection\<rparr> # rest))
           | _ \<Rightarrow> Inl TypeError)
      | MULTIPLAYER \<Rightarrow> Inr (snakes prev))"

subsection \<open>Movement and food consumption\<close>

text \<open>
  The callback of \<^verbatim>\<open>newState.snakes.map\<close> runs once per snake, in order, and writes three
  variables of the enclosing updater: \<^verbatim>\<open>newState.isRunning\<close>, \<^verbatim>\<open>newScores\<close> and
  \<^verbatim>\<open>newState.food\<close>. They are threaded through the calls as a record.
\<close>

record TickVars =
  running :: bool
  newScores :: "jsnumber list"
  newFood :: "Position list"

text \<open>\<^verbatim>\<open>findIndex\<close> returns \<open>-1\<close> when nothing matches; \<open>None\<close> stands for it.\<close>

fun findIndex :: "('a \<Rightarrow> bool) \<Rightarrow> 'a list \<Rightarrow> nat option" where
  "findIndex P [] = None"
| "findIndex P (x # xs) = (if P x then Some 0 else map_option Suc (findIndex P xs))"

definition removeIndex :: "'a list \<Rightarrow> nat \<Rightarrow> 'a list" where
  "removeIndex xs foodIndex =
     map snd (filter (\<lambda>(index, _). index \<noteq> foodIndex) (enumerate 0 xs))"

fun plusOne :: "jsnumber \<Rightarrow> jsnumber" where
  "plusOne (Num n) = Num (n + 1)"
| "plusOne NaN = NaN"
| "plusOne Undefined = NaN"

definition incrementAt :: "jsnumber list \<Rightarrow> nat \<Rightarrow> jsnumber list" where
  "incrementAt xs i =
     (if i < length xs then xs[i := plusOne (xs ! i)]
      else xs @ replicate (i - length xs) Undefined @ [NaN])"

definition outOfGrid :: "Position \<Rightarrow> bool" where
  "outOfGrid head \<longleftrightarrow>
     fst head < 0 \<or> fst head \<ge> GRID_WIDTH \<or> snd head < 0 \<or> snd head \<ge> GRID_HEIGHT"

text \<open>
  Spreading \<^verbatim>\<open>snake.body[0]\<close> of an empty body raises. The \<^verbatim>\<open>switch\<close> on the direction
  shifts the copied head exactly as \<^const>\<open>getNextPosition\<close> does. The food index is looked up
  in \<^verbatim>\<open>prev.food\<close>, and \<^verbatim>\<open>newState.food\<close> is assigned \<^verbatim>\<open>prev.food\<close> without that index.
\<close>

definition moveSnake ::
  "Position list \<Rightarrow> nat \<Rightarrow> Snake \<Rightarrow> TickVars \<Rightarrow> error + (Snake \<times> TickVars)" where
  "moveSnake prevFood snakeIndex snake vars =
     (case body snake of
        [] \<Rightarrow> Inl TypeError
      | h0 # _ \<Rightarrow>
          (let head = getNextPosition h0 (direction snake)
           in if outOfGrid head then Inr (snake, vars\<lparr>running := False\<rparr>)
              else
                (case findIndex (\<lambda>f. fst f = fst head \<and> snd f = snd head) prevFood of
                   Some foodIndex \<Rightarrow>
                     Inr (snake\<lparr>body := head # body snake\<rparr>,
                          vars\<lparr>newScores := incrementAt (newScores vars) snakeIndex,
                               newFood := removeIndex prevFood foodIndex\<rparr>)
                 | None \<Rightarrow>
                     Inr (snake\<lparr>body := head # butlast (body snake)\<rparr>, vars))))"

fun moveSnakes ::
  "Position list \<Rightarrow> nat \<Rightarrow> Snake list \<Rightarrow> TickVars \<Rightarrow> error + (Snake list \<times> TickVars)" where
  "moveSnakes prevFood snakeIndex [] vars = Inr ([], vars)"
| "moveSnakes prevFood snakeIndex (snake # rest) vars =
     (case moveSnake prevFood snakeIndex snake vars of
        Inl e \<Rightarrow> Inl e
      | Inr (snake', vars') \<Rightarrow>
          (case moveSnakes prevFood (Suc snakeIndex) rest vars' of
             Inl e \<Rightarrow> Inl e
           | Inr (rest', vars'') \<Rightarrow> Inr (snake' # rest', vars'')))"

definition movePhase :: "GameState \<Rightarrow> error + (Snake list \<times> TickVars)" where
  "movePhase prev =
     (case resolveDirections prev of
        Inl e \<Rightarrow> Inl e
      | Inr directed \<Rightarrow>
          moveSnakes (food prev) 0 directed
            \<lparr>running = isRunning prev, newScores = scores prev, newFood = food prev\<rparr>)"

subsection \<open>Replenishment, collisions and the whole tick\<close>

definition hasCollision :: "Position list \<Rightarrow> bool" where
  "hasCollision allSegments =
     list_ex (\<lambda>(index, segment).
        list_ex (\<lambda>(otherIndex, otherSegment).
           index \<noteq> otherIndex \<and> fst segment = fst otherSegment
           \<and> snd segment = snd otherSegment)
          (enumerate 0 allSegments))
       (enumerate 0 allSegments)"

text \<open>
  \<^verbatim>\<open>if (newState.food.length === 0) newState.food.push(generateFood(newState.snakes, []))\<close>:
  only an empty list is replenished, with one position that is on no snake segment.
\<close>

definition replenish :: "draw list \<Rightarrow> Snake list \<Rightarrow> Position list \<Rightarrow> Position list option" where
  "replenish draws sns foods =
     (if length foods = 0 then
        (case generateFood sns [] draws of None \<Rightarrow> None | Some p \<Rightarrow> Some (foods @ [p]))
      else Some foods)"

text \<open>
  \<^verbatim>\<open>updateGame\<close> has no test of \<^verbatim>\<open>prev.isRunning\<close>. \<open>None\<close> is the food loop not returning
  on the draws given; \<open>Some (Inl TypeError)\<close> is the updater raising.
\<close>

definition updateGame :: "draw list \<Rightarrow> GameState \<Rightarrow> (error + GameState) option" where
  "updateGame draws prev =
     (case movePhase prev of
        Inl e \<Rightarrow> Some (Inl e)
      | Inr (moved, vars) \<Rightarrow>
          (case replenish draws moved (newFood vars) of
             None \<Rightarrow> None
           | Some foods \<Rightarrow>
               Some (Inr (prev\<lparr>snakes := moved, food := foods, scores := newScores vars,
                               isRunning := (if hasCollision (concat (map body moved))
                                             then False else running vars)\<rparr>))))"

text \<open>
  The timer callback of the board component, \<^verbatim>\<open>gameLoop\<close>, is where the running flag
  gates the tick: \<^verbatim>\<open>if (gameState.isRunning) { updateGame(); render(); }\<close>. The snapshot it
  tests is the one the effect was set up with, which is the current one.
\<close>

definition gameLoop :: "draw list \<Rightarrow> GameState \<Rightarrow> (error + GameState) option" where
  "gameLoop draws gameState =
     (if isRunning gameState then updateGame draws gameState else Some (Inr gameState))"

section \<open>Notions used in the statements\<close>

text \<open>
  The cell a snake's head is about to enter: its first segment shifted one cell along its
  direction. There is none for an empty body (the updater raises on it).
\<close>

definition newHead :: "Snake \<Rightarrow> Position option" where
  "newHead snake =
     (case body snake of [] \<Rightarrow> None | h0 # _ \<Rightarrow> Some (getNextPosition h0 (direction snake)))"

text \<open>
  The snake the movement callback returns for a snake whose new head is \<open>h\<close>: unchanged on
  a wall exit, grown by the new head when the head is on a food cell of the list it
  searches, shifted otherwise. Lemma \<open>moveSnake_snake\<close> below derives it from
  \<^const>\<open>moveSnake\<close>.
\<close>

definition movedSnake :: "Position list \<Rightarrow> Snake \<Rightarrow> Position \<Rightarrow> Snake" where
  "movedSnake pf sn h =
     (if outOfGrid h then sn
      else if h \<in> set pf then sn\<lparr>body := h # body sn\<rparr>
      else sn\<lparr>body := h # butlast (body sn)\<rparr>)"

text \<open>
  The shape of every state the provider produces: two snakes with non-empty bodies, some
  food, and two score slots. \<^verbatim>\<open>startGame\<close> establishes it and every operation keeps it
  (lemmas \<open>wellFormed_startGame\<close>, \<open>wellFormed_updateGame\<close>, \<open>wellFormed_setFoodPosition\<close>
  and \<open>wellFormed_setSnakeDirection\<close> below).
\<close>

definition wellFormed :: "GameState \<Rightarrow> bool" where
  "wellFormed s \<longleftrightarrow>
     length (snakes s) = 2 \<and> (\<forall>sn\<in>set (snakes s). body sn \<noteq> []) \<and> food s \<noteq> []
     \<and> length (scores s) = 2"

section \<open>Example states\<close>

definition exampleRunning :: GameState where
  "exampleRunning =
     \<lparr>isRunning = True, snakes = initialSnakes, food = [(20, 20)],
      scores = [Num 0, Num 0], speed = 150, snakeColors = (''red'', ''blue''),
      gameMode = MULTIPLAYER\<rparr>"

definition exampleStopped :: GameState where
  "exampleStopped = exampleRunning\<lparr>isRunning := False\<rparr>"

definition exampleAtWall :: GameState where
  "exampleAtWall =
     exampleRunning\<lparr>snakes := [\<lparr>body = [(39, 5), (38, 5)], direction = RIGHT\<rparr>,
                               \<lparr>body = [(34, 24)], direction = LEFT\<rparr>]\<rparr>"

definition exampleHeadOn :: GameState where
  "exampleHeadOn =
     exampleRunning\<lparr>snakes := [\<lparr>body = [(10, 10)], direction = RIGHT\<rparr>,
                               \<lparr>body = [(12, 10)], direction = LEFT\<rparr>]\<rparr>"

definition exampleEatLast :: GameState where
  "exampleEatLast = exampleRunning\<lparr>food := [(6, 5)]\<rparr>"

definition exampleBothEat :: GameState where
  "exampleBothEat = exampleRunning\<lparr>food := [(6, 5), (33, 24)]\<rparr>"

definition exampleDraws :: "draw list" where
  "exampleDraws = [(5 / 32, 3 / 16), (1 / 2, 1 / 2)]"

definition exampleAiSnake :: Snake where
  "exampleAiSnake = \<lparr>body = [(10, 10)], direction = RIGHT\<rparr>"

definition exampleOtherSnake :: Snake where
  "exampleOtherSnake = \<lparr>body = [(30, 20)], direction = LEFT\<rparr>"

lemmas example_defs = exampleRunning_def exampleStopped_def initialSnakes_def GRID_WIDTH_def GRID_HEIGHT_def

lemmas tick_defs = movePhase_def resolveDirections_def moveSnake_def outOfGrid_def
  incrementAt_def removeIndex_def

section \<open>Auxiliary facts\<close>

subsection \<open>Double rounding and the random position\<close>

text \<open>
  Rounding keeps a product below a power of two at or below it, keeps a dyadic number with a
  short denominator as it is, and takes the largest products \<open>u * 40\<close> and \<open>u * 30\<close> of a
  double \<open>u < 1\<close> to the double just below 40 and 30. So every valid draw gives a cell of
  the grid, and every cell of the grid is given by some valid draw.
\<close>

lemma floor_rat_numeral_divide:
  "\<lfloor>numeral a / numeral b :: rat\<rfloor> = numeral a div numeral b"
  by (metis floor_divide_of_int_eq of_int_numeral)

lemma spacing_step:
  "spacing n hi x =
     (if n = 0 \<or> hi / 2 \<le> x then hi / 2 ^ 53 else spacing (n - 1) (hi / 2) x)"
  by (cases n) simp_all

lemmas sampler_defs = generateRandomPosition_def GRID_WIDTH_def GRID_HEIGHT_def
  roundToDouble_def spacing_step roundHalfEven_def floor_rat_numeral_divide

lemma roundHalfEven_of_int: "roundHalfEven (of_int n) = n"
  by (simp add: roundHalfEven_def)

lemma roundHalfEven_nonneg: "0 \<le> q \<Longrightarrow> 0 \<le> roundHalfEven q"
  by (auto simp: roundHalfEven_def Let_def)

lemma roundHalfEven_le:
  assumes "q \<le> of_int N"
  shows "roundHalfEven q \<le> N"
proof (cases "\<lfloor>q\<rfloor> = N")
  case True
  then have "of_int N \<le> q" by (metis of_int_floor_le)
  with assms have "q = of_int N" by simp
  then show ?thesis by (simp add: roundHalfEven_of_int)
next
  case False
  from assms have "\<lfloor>q\<rfloor> \<le> N" by (simp add: floor_le_iff)
  with False have "\<lfloor>q\<rfloor> + 1 \<le> N" by simp
  then show ?thesis by (auto simp: roundHalfEven_def Let_def)
qed

lemma roundHalfEven_below:
  assumes "q \<le> of_int N - c" "1 / 2 < c"
  shows "roundHalfEven q \<le> N - 1"
proof (cases "\<lfloor>q\<rfloor> = N - 1")
  case True
  from assms have "q - of_int (N - 1) < 1 / 2" by simp
  with True show ?thesis by (simp add: roundHalfEven_def Let_def)
next
  case False
  from assms have "q < of_int N" by simp
  then have "\<lfloor>q\<rfloor> < N" by (simp add: floor_less_iff)
  with False have "\<lfloor>q\<rfloor> + 1 \<le> N - 1" by simp
  then show ?thesis by (auto simp: roundHalfEven_def Let_def)
qed

lemma spacing_pos: "0 < hi \<Longrightarrow> 0 < spacing n hi x"
  by (induction n arbitrary: hi) simp_all

lemma rounded_with_top_spacing:
  assumes "0 < hi" "0 \<le> x" "x < hi"
  shows "of_int (roundHalfEven (x / (hi / 2 ^ 53))) * (hi / 2 ^ 53) \<le> hi"
proof -
  define P :: rat where "P = 2 ^ 53"
  have P: "0 < P" "P = of_int (2 ^ 53)" by (simp_all add: P_def)
  have "x * P \<le> hi * P" using assms P(1) by simp
  then have "x / (hi / P) \<le> P" using assms(1) P(1) by (simp add: field_simps)
  then have "x / (hi / P) \<le> of_int (2 ^ 53)" using P(2) by simp
  then have "roundHalfEven (x / (hi / P)) \<le> 2 ^ 53" by (rule roundHalfEven_le)
  then have "(of_int (roundHalfEven (x / (hi / P))) :: rat) \<le> P"
    unfolding P(2) by (simp only: of_int_le_iff)
  then have "of_int (roundHalfEven (x / (hi / P))) * (hi / P) \<le> P * (hi / P)"
    using assms(1) P(1) by (intro mult_right_mono) simp_all
  then have "of_int (roundHalfEven (x / (hi / P))) * (hi / P) \<le> hi"
    using P(1) by simp
  then show ?thesis by (simp only: P_def)
qed

lemma rounded_le_top:
  assumes "0 < hi" "0 \<le> x" "x < hi"
  shows "of_int (roundHalfEven (x / spacing n hi x)) * spacing n hi x \<le> hi"
  using assms
proof (induction n arbitrary: hi)
  case 0
  then show ?case by (simp only: spacing.simps rounded_with_top_spacing)
next
  case (Suc n)
  show ?case
  proof (cases "hi / 2 \<le> x")
    case True
    then have "spacing (Suc n) hi x = hi / 2 ^ 53" by simp
    with Suc.prems show ?thesis by (simp only: rounded_with_top_spacing)
  next
    case False
    then have eq: "spacing (Suc n) hi x = spacing n (hi / 2) x" by simp
    from False Suc.prems have "0 < hi / 2" "x < hi / 2" by simp_all
    from Suc.IH[OF this(1) Suc.prems(2) this(2)] Suc.prems(1) show ?thesis
      unfolding eq by simp
  qed
qed

lemma roundToDouble_nonneg: "0 \<le> x \<Longrightarrow> 0 \<le> roundToDouble x"
proof -
  assume x: "0 \<le> x"
  have s: "0 < spacing 1027 64 x" by (rule spacing_pos) simp
  then have "0 \<le> x / spacing 1027 64 x" using x by simp
  then have "0 \<le> roundHalfEven (x / spacing 1027 64 x)" by (rule roundHalfEven_nonneg)
  with s show ?thesis by (simp add: roundToDouble_def Let_def)
qed

lemma spacing_binade:
  assumes "0 < hi" "hi / 2 ^ Suc k \<le> x" "x < hi / 2 ^ k" "k \<le> n"
  shows "spacing n hi x = hi / 2 ^ k / 2 ^ 53"
  using assms
proof (induction k arbitrary: n hi)
  case 0
  then show ?case by (cases n) simp_all
next
  case (Suc k)
  from Suc.prems(4) obtain n' where n: "n = Suc n'" "k \<le> n'" by (cases n) simp_all
  have "hi / 2 ^ Suc k \<le> hi / 2"
    using Suc.prems(1) by (simp add: field_simps)
  with Suc.prems(3) have small: "\<not> hi / 2 \<le> x" by simp
  have "spacing n' (hi / 2) x = hi / 2 / 2 ^ k / 2 ^ 53"
    using Suc.prems(1,2,3) n(2) by (intro Suc.IH) simp_all
  with small n(1) show ?case by simp
qed

lemma isRandomNumber_le:
  assumes "isRandomNumber u"
  shows "0 \<le> u \<and> u \<le> 1 - 1 / 2 ^ 53"
proof (cases "1 / 2 \<le> u")
  case False
  with assms show ?thesis by (simp add: isRandomNumber_def)
next
  case True
  define P :: rat where "P = 2 ^ 53"
  have P: "0 < P" "P = of_int (2 ^ 53)" by (simp_all add: P_def)
  from assms have u: "0 \<le> u" "u < 1" "roundToDouble u = u" by (simp_all add: isRandomNumber_def)
  have "spacing 1027 64 u = 64 / 2 ^ 6 / 2 ^ 53"
    using True u(2) by (intro spacing_binade) simp_all
  then have s: "spacing 1027 64 u = 1 / P" by (simp add: P_def)
  define n where "n = roundHalfEven (u / (1 / P))"
  from u(3) have un: "u = of_int n / P"
    unfolding roundToDouble_def Let_def s n_def by simp
  with u(2) P(1) have "of_int n < P" by simp
  then have "n < 2 ^ 53" unfolding P(2) by (simp only: of_int_less_iff)
  then have "n \<le> 2 ^ 53 - 1" by simp
  then have "(of_int n :: rat) \<le> of_int (2 ^ 53 - 1)" by (simp only: of_int_le_iff)
  then have "(of_int n :: rat) \<le> P - 1" unfolding P(2) by simp
  then have "of_int n / P \<le> (P - 1) / P" using P(1) by (simp add: divide_right_mono)
  also have "\<dots> = 1 - 1 / P" using P(1) by (simp add: diff_divide_distrib)
  finally show ?thesis using un u(1) by (simp add: P_def)
qed

lemma rounded_below:
  assumes "0 < s" "x \<le> of_int N * s - c * s" "1 / 2 < c"
  shows "of_int (roundHalfEven (x / s)) * s \<le> of_int (N - 1) * s"
proof -
  from assms(1,2) have "x / s \<le> of_int N - c" by (simp add: field_simps)
  from roundHalfEven_below[OF this assms(3)]
  have "(of_int (roundHalfEven (x / s)) :: rat) \<le> of_int (N - 1)" by (simp only: of_int_le_iff)
  with assms(1) show ?thesis by (intro mult_right_mono) simp_all
qed

lemma spacing_form: "\<exists>i. spacing n hi x = hi / 2 ^ i / 2 ^ 53"
proof (induction n arbitrary: hi)
  case 0
  have "spacing 0 hi x = hi / 2 ^ 0 / 2 ^ 53" by simp
  then show ?case by blast
next
  case (Suc n)
  show ?case
  proof (cases "hi / 2 \<le> x")
    case True
    then have "spacing (Suc n) hi x = hi / 2 ^ 0 / 2 ^ 53" by simp
    then show ?thesis by blast
  next
    case False
    from Suc[of "hi / 2"] obtain i where "spacing n (hi / 2) x = hi / 2 / 2 ^ i / 2 ^ 53" by blast
    with False have "spacing (Suc n) hi x = hi / 2 ^ Suc i / 2 ^ 53" by simp
    then show ?thesis by blast
  qed
qed

lemma roundToDouble_dyadic:
  assumes "j \<le> 47"
  shows "roundToDouble (of_int m / 2 ^ j) = of_int m / 2 ^ j"
proof -
  define x :: rat where "x = of_int m / 2 ^ j"
  from spacing_form[of 1027 64 x] obtain i where i: "spacing 1027 64 x = 64 / 2 ^ i / 2 ^ 53"
    by blast
  have "(64 :: rat) / 2 ^ 53 = 1 / 2 ^ 47" by simp
  then have "(64 :: rat) / 2 ^ i / 2 ^ 53 = 1 / 2 ^ 47 / 2 ^ i" by (simp add: field_simps)
  also have "\<dots> = 1 / 2 ^ (47 + i)" by (simp add: power_add)
  finally have s: "spacing 1027 64 x = 1 / 2 ^ (47 + i)" using i by simp
  from assms have "47 + i = j + (47 + i - j)" by simp
  then have "(2 :: rat) ^ (47 + i) = 2 ^ j * 2 ^ (47 + i - j)" by (metis power_add)
  then have "x / (1 / 2 ^ (47 + i)) = of_int m * 2 ^ (47 + i - j)"
    by (simp add: x_def)
  also have "\<dots> = of_int (m * 2 ^ (47 + i - j))" by simp
  finally have q: "x / (1 / 2 ^ (47 + i)) = of_int (m * 2 ^ (47 + i - j))" .
  have "roundToDouble x = of_int (roundHalfEven (x / (1 / 2 ^ (47 + i)))) * (1 / 2 ^ (47 + i))"
    by (simp only: roundToDouble_def Let_def s)
  also have "\<dots> = of_int (m * 2 ^ (47 + i - j)) * (1 / 2 ^ (47 + i))"
    by (simp only: q roundHalfEven_of_int)
  also have "\<dots> = x / (1 / 2 ^ (47 + i)) * (1 / 2 ^ (47 + i))" by (simp only: q)
  also have "\<dots> = x" by simp
  finally show ?thesis by (simp only: x_def)
qed

lemma scaled_in_range:
  fixes x :: rat
  assumes u: "0 \<le> u" "u \<le> 1 - 1 / 2 ^ 53"
    and x: "x = u * 40"
  shows "0 \<le> \<lfloor>roundToDouble x\<rfloor> \<and> \<lfloor>roundToDouble x\<rfloor> < 40"
proof -
  define P :: rat where "P = 2 ^ 53"
  have P: "0 < P" "P = 9007199254740992" by (simp_all add: P_def)
  from u x have x0: "0 \<le> x" and x1: "x \<le> 40 - 40 / P" by (simp_all add: P_def)
  have "0 < 40 / P" using P(1) by simp
  with x1 have x64: "x < 64" by linarith
  have lo: "0 \<le> \<lfloor>roundToDouble x\<rfloor>" using roundToDouble_nonneg[OF x0] by simp
  have "roundToDouble x < 40"
  proof (cases "32 \<le> x")
    case True
    have "spacing 1027 64 x = 64 / 2 ^ 0 / 2 ^ 53"
      using True x64 by (intro spacing_binade) simp_all
    then have s: "spacing 1027 64 x = 64 / P" by (simp add: P_def)
    have "x \<le> of_int 5629499534213120 * (64 / P) - 5 / 8 * (64 / P)"
      using x1 P by simp
    from rounded_below[OF _ this] P(1)
    have "of_int (roundHalfEven (x / (64 / P))) * (64 / P) \<le> of_int (5629499534213120 - 1) * (64 / P)"
      by simp
    also have "\<dots> < 40" unfolding P(2) by simp
    finally show ?thesis by (simp only: roundToDouble_def Let_def s)
  next
    case False
    then have "spacing 1027 64 x = spacing 1026 32 x" by (simp add: spacing_step)
    moreover have "of_int (roundHalfEven (x / spacing 1026 32 x)) * spacing 1026 32 x \<le> 32"
      using False x0 by (intro rounded_le_top) simp_all
    ultimately show ?thesis by (simp add: roundToDouble_def Let_def)
  qed
  then have "\<lfloor>roundToDouble x\<rfloor> < 40" by (simp add: floor_less_iff)
  with lo show ?thesis by simp
qed

lemma scaled_in_range_height:
  fixes x :: rat
  assumes u: "0 \<le> u" "u \<le> 1 - 1 / 2 ^ 53"
    and x: "x = u * 30"
  shows "0 \<le> \<lfloor>roundToDouble x\<rfloor> \<and> \<lfloor>roundToDouble x\<rfloor> < 30"
proof -
  define P :: rat where "P = 2 ^ 53"
  have P: "0 < P" "P = 9007199254740992" by (simp_all add: P_def)
  from u x have x0: "0 \<le> x" and x1: "x \<le> 30 - 30 / P" by (simp_all add: P_def)
  have "0 < 30 / P" using P(1) by simp
  with x1 have x32: "x < 32" by linarith
  have lo: "0 \<le> \<lfloor>roundToDouble x\<rfloor>" using roundToDouble_nonneg[OF x0] by simp
  have "roundToDouble x < 30"
  proof (cases "16 \<le> x")
    case True
    have "spacing 1027 64 x = 64 / 2 ^ 1 / 2 ^ 53"
      using True x32 by (intro spacing_binade) simp_all
    then have s: "spacing 1027 64 x = 32 / P" by (simp add: P_def)
    have "x \<le> of_int 8444249301319680 * (32 / P) - 15 / 16 * (32 / P)"
      using x1 P by simp
    from rounded_below[OF _ this] P(1)
    have "of_int (roundHalfEven (x / (32 / P))) * (32 / P) \<le> of_int (8444249301319680 - 1) * (32 / P)"
      by simp
    also have "\<dots> < 30" unfolding P(2) by simp
    finally show ?thesis by (simp only: roundToDouble_def Let_def s)
  next
    case False
    with x32 have "spacing 1027 64 x = spacing 1025 16 x" by (simp add: spacing_step)
    moreover have "of_int (roundHalfEven (x / spacing 1025 16 x)) * spacing 1025 16 x \<le> 16"
      using False x0 by (intro rounded_le_top) simp_all
    ultimately show ?thesis by (simp add: roundToDouble_def Let_def)
  qed
  then have "\<lfloor>roundToDouble x\<rfloor> < 30" by (simp add: floor_less_iff)
  with lo show ?thesis by simp
qed

lemma generateRandomPosition_in_grid:
  assumes "validDraw d"
  shows "\<not> outOfGrid (generateRandomPosition d)"
proof -
  from assms have "isRandomNumber (fst d)" "isRandomNumber (snd d)" by (simp_all add: validDraw_def)
  from scaled_in_range[OF isRandomNumber_le[OF this(1), THEN conjunct1]
      isRandomNumber_le[OF this(1), THEN conjunct2] refl]
    scaled_in_range_height[OF isRandomNumber_le[OF this(2), THEN conjunct1]
      isRandomNumber_le[OF this(2), THEN conjunct2] refl]
  show ?thesis
    by (simp add: outOfGrid_def generateRandomPosition_def GRID_WIDTH_def GRID_HEIGHT_def not_le)
qed

lemma cell_has_number:
  fixes c :: int and w :: int and j :: nat
  assumes c: "0 \<le> c" "c < w" and w: "w \<le> 2 ^ j" "0 < w" and j: "j \<le> 47"
    and k: "k = \<lceil>of_int c * 2 ^ j / (of_int w :: rat)\<rceil>"
  shows "isRandomNumber (of_int k / 2 ^ j)
         \<and> roundToDouble (of_int k / 2 ^ j * of_int w) = of_int k / 2 ^ j * of_int w
         \<and> \<lfloor>of_int k / 2 ^ j * (of_int w :: rat)\<rfloor> = c"
proof -
  define q :: rat where "q = of_int c * 2 ^ j / of_int w"
  have wpos: "(0 :: rat) < of_int w" using w(2) by simp
  have q0: "0 \<le> q" using c(1) wpos by (simp add: q_def)
  have kq: "q \<le> of_int k \<and> of_int k < q + 1"
    unfolding k q_def[symmetric] using ceiling_correct[of q] by linarith
  have "of_int (c + 1) \<le> (of_int w :: rat)" using c(2) by simp
  then have "of_int (c + 1) * 2 ^ j \<le> of_int w * (2 ^ j :: rat)"
    by (intro mult_right_mono) simp_all
  then have "of_int c * 2 ^ j + 2 ^ j \<le> of_int w * (2 ^ j :: rat)"
    by (simp add: algebra_simps)
  then have "q + 2 ^ j / of_int w \<le> 2 ^ j" using wpos by (simp add: q_def field_simps)
  moreover have "(1 :: rat) \<le> 2 ^ j / of_int w"
  proof -
    have "(of_int w :: rat) \<le> of_int (2 ^ j)" using w(1) by (simp only: of_int_le_iff)
    then show ?thesis using wpos by simp
  qed
  ultimately have "q + 1 \<le> 2 ^ j" by linarith
  with kq[THEN conjunct2] have klt: "of_int k < (2 ^ j :: rat)" by linarith
  from q0 kq[THEN conjunct1] have k0: "(0 :: rat) \<le> of_int k" by linarith
  have rn: "isRandomNumber (of_int k / 2 ^ j)"
    using k0 klt roundToDouble_dyadic[OF j, of k] by (simp add: isRandomNumber_def)
  have "of_int k / 2 ^ j * (of_int w :: rat) = of_int (k * w) / 2 ^ j" by simp
  then have fixed: "roundToDouble (of_int k / 2 ^ j * of_int w) = of_int k / 2 ^ j * of_int w"
    using roundToDouble_dyadic[OF j, of "k * w"] by simp
  have lo: "of_int c \<le> of_int k / 2 ^ j * (of_int w :: rat)"
    using kq[THEN conjunct1] wpos by (simp add: q_def field_simps)
  have "of_int k * of_int w < (q + 1) * (of_int w :: rat)"
    using kq[THEN conjunct2] wpos by (simp only: mult_strict_right_mono)
  also have "\<dots> = of_int c * 2 ^ j + of_int w" using wpos by (simp add: q_def algebra_simps)
  also have "\<dots> \<le> of_int c * 2 ^ j + 2 ^ j"
  proof -
    have "(of_int w :: rat) \<le> of_int (2 ^ j)" using w(1) by (simp only: of_int_le_iff)
    then show ?thesis by simp
  qed
  finally have "of_int k * of_int w < (of_int c + 1) * (2 ^ j :: rat)" by (simp add: algebra_simps)
  then have hi: "of_int k / 2 ^ j * (of_int w :: rat) < of_int c + 1"
    by (simp add: field_simps)
  from lo hi have "\<lfloor>of_int k / 2 ^ j * (of_int w :: rat)\<rfloor> = c"
    by (intro floor_unique) simp_all
  with rn fixed show ?thesis by blast
qed

lemma generateRandomPosition_onto:
  assumes "\<not> outOfGrid c"
  shows "\<exists>d. validDraw d \<and> generateRandomPosition d = c"
proof -
  obtain cx cy where c: "c = (cx, cy)" by (cases c)
  with assms have r: "0 \<le> cx" "cx < 40" "0 \<le> cy" "cy < 30"
    by (simp_all add: outOfGrid_def GRID_WIDTH_def GRID_HEIGHT_def)
  define kx where "kx = \<lceil>of_int cx * 2 ^ 6 / (of_int 40 :: rat)\<rceil>"
  define ky where "ky = \<lceil>of_int cy * 2 ^ 5 / (of_int 30 :: rat)\<rceil>"
  have x: "isRandomNumber (of_int kx / 2 ^ 6)
         \<and> roundToDouble (of_int kx / 2 ^ 6 * of_int 40) = of_int kx / 2 ^ 6 * of_int 40
         \<and> \<lfloor>of_int kx / 2 ^ 6 * (of_int 40 :: rat)\<rfloor> = cx"
    using r(1,2) by (intro cell_has_number kx_def) simp_all
  have y: "isRandomNumber (of_int ky / 2 ^ 5)
         \<and> roundToDouble (of_int ky / 2 ^ 5 * of_int 30) = of_int ky / 2 ^ 5 * of_int 30
         \<and> \<lfloor>of_int ky / 2 ^ 5 * (of_int 30 :: rat)\<rfloor> = cy"
    using r(3,4) by (intro cell_has_number ky_def) simp_all
  let ?d = "(of_int kx / 2 ^ 6, of_int ky / 2 ^ 5) :: draw"
  have "validDraw ?d" using x y by (simp add: validDraw_def)
  moreover have "generateRandomPosition ?d = c"
    unfolding generateRandomPosition_def GRID_WIDTH_def GRID_HEIGHT_def c
    using x y by (simp only: fst_conv snd_conv)
  ultimately show ?thesis by blast
qed

text \<open>
  The rounding of the product is visible in the cell. For the doubles nearest to 0.825 and
  to 0.85 the exact products with 40 are just below 33 and 34, and the double products are
  33 and 34.
\<close>

lemma generateRandomPosition_rounds_product:
  "isRandomNumber (7430939385161318 / 2 ^ 53)
   \<and> \<lfloor>(7430939385161318 / 2 ^ 53 :: rat) * 40\<rfloor> = 32
   \<and> generateRandomPosition (7430939385161318 / 2 ^ 53, 1 / 2) = (33, 15)
   \<and> isRandomNumber (7656119366529843 / 2 ^ 53)
   \<and> \<lfloor>(7656119366529843 / 2 ^ 53 :: rat) * 40\<rfloor> = 33
   \<and> generateRandomPosition (7656119366529843 / 2 ^ 53, 1 / 2) = (34, 15)"
  by (simp add: isRandomNumber_def sampler_defs)

subsection \<open>Occupancy and food generation\<close>

lemma isPositionOccupied_iff:
  "isPositionOccupied p sns foods \<longleftrightarrow> p \<in> set (concat (map body sns)) \<or> p \<in> set foods"
  by (cases p) (auto simp: isPositionOccupied_def list_ex_iff)

lemma initial_free_iff:
  "isPositionOccupied p initialSnakes [] \<longleftrightarrow> p = (5, 5) \<or> p = (34, 24)"
  by (auto simp: isPositionOccupied_iff initialSnakes_def GRID_WIDTH_def GRID_HEIGHT_def)

lemma generateFood_Some:
  "\<exists>d\<in>set draws. \<not> isPositionOccupied (generateRandomPosition d) sns foods \<Longrightarrow>
     \<exists>p. generateFood sns foods draws = Some p"
  by (induction draws) (auto simp: Let_def)

lemma generateFood_SomeD:
  "generateFood sns foods draws = Some p \<Longrightarrow>
     \<not> isPositionOccupied p sns foods \<and> p \<in> generateRandomPosition ` set draws"
  by (induction draws) (auto simp: Let_def split: if_splits)

lemma generateFood_None_iff:
  "generateFood sns foods draws = None \<longleftrightarrow>
     (\<forall>d\<in>set draws. isPositionOccupied (generateRandomPosition d) sns foods)"
  by (induction draws) (auto simp: Let_def)

lemma replenish_cases:
  "replenish draws sns foods =
     (if foods = [] then map_option (\<lambda>p. [p]) (generateFood sns [] draws) else Some foods)"
  by (auto simp: replenish_def split: option.splits)

lemma replenish_Some:
  assumes "foods \<noteq> [] \<or> (\<exists>d\<in>set draws. \<not> isPositionOccupied (generateRandomPosition d) sns [])"
  shows "\<exists>fs. replenish draws sns foods = Some fs"
proof (cases "foods = []")
  case True
  with assms generateFood_Some[of draws sns "[]"] show ?thesis
    by (auto simp: replenish_cases)
next
  case False
  then show ?thesis by (simp add: replenish_cases)
qed

subsection \<open>Directions and indexed list operations\<close>

lemma opposites_involution: "opposites (opposites d) = d"
  by (cases d) simp_all

lemma opposites_neq: "opposites d \<noteq> d"
  by (cases d) simp_all

lemma map_enumerate_update:
  "map (\<lambda>(index, s). if index = i then f s else s) (enumerate 0 xs)
     = (if i < length xs then xs[i := f (xs ! i)] else xs)"
  by (rule nth_equalityI) (auto simp: nth_enumerate_eq nth_list_update)

lemma removeIndex_eq:
  "removeIndex xs i = take i xs @ drop (Suc i) xs"
proof -
  have "map snd (filter (\<lambda>(index, _). index \<noteq> i) (enumerate n xs))
          = (if n \<le> i then take (i - n) xs @ drop (Suc (i - n)) xs else xs)" for n
  proof (induction xs arbitrary: n)
    case Nil
    then show ?case by simp
  next
    case (Cons x xs)
    show ?case
    proof (cases "n \<le> i")
      case True
      show ?thesis
      proof (cases "i = n")
        case True
        then show ?thesis using Cons[of "Suc n"] by simp
      next
        case False
        with True have "i - n = Suc (i - Suc n)" "Suc n \<le> i" by arith+
        then show ?thesis using Cons[of "Suc n"] False by simp
      qed
    next
      case False
      then show ?thesis using Cons[of "Suc n"] by auto
    qed
  qed
  from this[of 0] show ?thesis by (simp add: removeIndex_def)
qed

lemma nth_in_removed:
  assumes "i < length xs" "i \<noteq> k"
  shows "xs ! i \<in> set (take k xs @ drop (Suc k) xs)"
proof (cases "i < k")
  case True
  with assms have "take k xs ! i = xs ! i" "i < length (take k xs)" by simp_all
  then have "xs ! i \<in> set (take k xs)" by (metis nth_mem)
  then show ?thesis by simp
next
  case False
  with assms have k: "Suc k \<le> i" by simp
  with assms have "drop (Suc k) xs ! (i - Suc k) = xs ! i" "i - Suc k < length (drop (Suc k) xs)"
    by simp_all
  then have "xs ! i \<in> set (drop (Suc k) xs)" by (metis nth_mem)
  then show ?thesis by simp
qed

lemma snakes_update_same: "s\<lparr>snakes := xs\<rparr> = s \<longleftrightarrow> xs = snakes s"
  by (cases s) simp

lemma direction_update_same:
  "sn\<lparr>direction := d\<rparr> = sn \<longleftrightarrow> d = direction sn"
  "sn = sn\<lparr>direction := d\<rparr> \<longleftrightarrow> d = direction sn"
  by (cases sn; auto)+

lemma setSnakeDirection_newSnakes:
  assumes "0 \<le> i" "i < int (length xs)"
  shows "map (\<lambda>(index, s). if int index = i then s\<lparr>direction := d\<rparr> else s) (enumerate 0 xs)
           = xs[nat i := (xs ! nat i)\<lparr>direction := d\<rparr>]"
  by (rule nth_equalityI) (use assms in \<open>auto simp: nth_enumerate_eq nth_list_update\<close>)

lemma isSafeMove_iff:
  "isSafeMove p sns \<longleftrightarrow> \<not> outOfGrid p \<and> p \<notin> set (concat (map body sns))"
  by (cases p) (auto simp: isSafeMove_def outOfGrid_def list_ex_iff)

subsection \<open>The choice among the candidates\<close>

text \<open>
  The reduction over the scored candidates returns the first candidate of the list whose
  distance to the target is minimal.
\<close>

lemma foldl_first_best:
  fixes first :: "'a \<times> int"
  defines "step \<equiv> (\<lambda>best current. if snd current > snd best then current else best)"
  shows "\<exists>k<length (first # others).
           foldl step first others = (first # others) ! k
           \<and> (\<forall>j<length (first # others). snd ((first # others) ! j) \<le> snd ((first # others) ! k))
           \<and> (\<forall>j<k. snd ((first # others) ! j) < snd ((first # others) ! k))"
proof (induction others rule: rev_induct)
  case Nil
  show ?case by simp
next
  case (snoc x xs)
  define ys where "ys = first # xs"
  from snoc obtain k where k: "k < length ys" "foldl step first xs = ys ! k"
    "\<forall>j<length ys. snd (ys ! j) \<le> snd (ys ! k)" "\<forall>j<k. snd (ys ! j) < snd (ys ! k)"
    unfolding ys_def by blast
  have app: "first # (xs @ [x]) = ys @ [x]" by (simp add: ys_def)
  have fold: "foldl step first (xs @ [x]) = step (ys ! k) x" using k(2) by simp
  show ?case
  proof (cases "snd x > snd (ys ! k)")
    case True
    then have res: "foldl step first (xs @ [x]) = x" using fold by (simp add: step_def)
    have below: "snd (ys ! j) < snd x" if "j < length ys" for j
      using k(3) True that by force
    have "length ys < length (ys @ [x])" by simp
    moreover have "foldl step first (xs @ [x]) = (ys @ [x]) ! length ys"
      using res by simp
    moreover have "\<forall>j<length (ys @ [x]). snd ((ys @ [x]) ! j) \<le> snd ((ys @ [x]) ! length ys)"
      using below by (auto simp: nth_append less_Suc_eq order_less_imp_le)
    moreover have "\<forall>j<length ys. snd ((ys @ [x]) ! j) < snd ((ys @ [x]) ! length ys)"
      using below by (simp add: nth_append)
    ultimately show ?thesis unfolding app by blast
  next
    case False
    then have res: "foldl step first (xs @ [x]) = ys ! k" using fold by (simp add: step_def)
    have "k < length (ys @ [x])" using k(1) by simp
    moreover have "foldl step first (xs @ [x]) = (ys @ [x]) ! k"
      using res k(1) by (simp add: nth_append)
    moreover have "\<forall>j<length (ys @ [x]). snd ((ys @ [x]) ! j) \<le> snd ((ys @ [x]) ! k)"
      using k(1,3) False by (auto simp: nth_append less_Suc_eq)
    moreover have "\<forall>j<k. snd ((ys @ [x]) ! j) < snd ((ys @ [x]) ! k)"
      using k(1,4) by (simp add: nth_append)
    ultimately show ?thesis unfolding app by blast
  qed
qed

lemma bestDirection_first_closest:
  "\<exists>k<length (d0 # ds).
      bestDirection (directionScore head target d0) (map (directionScore head target) ds)
        = (d0 # ds) ! k
      \<and> (\<forall>j<length (d0 # ds).
            manhattan (getNextPosition head ((d0 # ds) ! k)) target
              \<le> manhattan (getNextPosition head ((d0 # ds) ! j)) target)
      \<and> (\<forall>j<k. manhattan (getNextPosition head ((d0 # ds) ! k)) target
                  < manhattan (getNextPosition head ((d0 # ds) ! j)) target)"
proof -
  let ?sc = "directionScore head target"
  let ?xs = "?sc d0 # map ?sc ds"
  from foldl_first_best[of "?sc d0" "map ?sc ds"] obtain k where
    k: "k < length ?xs"
    "foldl (\<lambda>best current. if snd current > snd best then current else best) (?sc d0) (map ?sc ds)
       = ?xs ! k"
    "\<forall>j<length ?xs. snd (?xs ! j) \<le> snd (?xs ! k)" "\<forall>j<k. snd (?xs ! j) < snd (?xs ! k)"
    by blast
  have xs: "?xs = map ?sc (d0 # ds)" by simp
  have nth: "?xs ! j = ?sc ((d0 # ds) ! j)" if "j < length (d0 # ds)" for j
    unfolding xs using that by (rule nth_map)
  have kl: "k < length (d0 # ds)" using k(1) by simp
  have "bestDirection (?sc d0) (map ?sc ds) = (d0 # ds) ! k"
    using k(2) nth[OF kl] by (simp add: bestDirection_def directionScore_def)
  moreover have "\<forall>j<length (d0 # ds).
            manhattan (getNextPosition head ((d0 # ds) ! k)) target
              \<le> manhattan (getNextPosition head ((d0 # ds) ! j)) target"
  proof (intro allI impI)
    fix j assume j: "j < length (d0 # ds)"
    with k(3) have "snd (?xs ! j) \<le> snd (?xs ! k)" by simp
    then show "manhattan (getNextPosition head ((d0 # ds) ! k)) target
              \<le> manhattan (getNextPosition head ((d0 # ds) ! j)) target"
      unfolding nth[OF j] nth[OF kl] by (simp add: directionScore_def)
  qed
  moreover have "\<forall>j<k. manhattan (getNextPosition head ((d0 # ds) ! k)) target
                  < manhattan (getNextPosition head ((d0 # ds) ! j)) target"
  proof (intro allI impI)
    fix j assume jk: "j < k"
    with kl have j: "j < length (d0 # ds)" by simp
    from k(4) jk have "snd (?xs ! j) < snd (?xs ! k)" by simp
    then show "manhattan (getNextPosition head ((d0 # ds) ! k)) target
                  < manhattan (getNextPosition head ((d0 # ds) ! j)) target"
      unfolding nth[OF j] nth[OF kl] by (simp add: directionScore_def)
  qed
  ultimately show ?thesis using kl by blast
qed

subsection \<open>Collision test\<close>

lemma hasCollision_iff: "hasCollision xs \<longleftrightarrow> \<not> distinct xs"
proof -
  have "hasCollision xs \<longleftrightarrow>
          (\<exists>p\<in>set (enumerate 0 xs). \<exists>q\<in>set (enumerate 0 xs). fst p \<noteq> fst q \<and> snd p = snd q)"
    by (simp add: hasCollision_def list_ex_iff prod_eq_iff case_prod_beta)
  also have "\<dots> \<longleftrightarrow> (\<exists>i<length xs. \<exists>j<length xs. i \<noteq> j \<and> xs ! i = xs ! j)"
  proof
    assume "\<exists>p\<in>set (enumerate 0 xs). \<exists>q\<in>set (enumerate 0 xs). fst p \<noteq> fst q \<and> snd p = snd q"
    then obtain p q where "p \<in> set (enumerate 0 xs)" "q \<in> set (enumerate 0 xs)"
      "fst p \<noteq> fst q" "snd p = snd q" by blast
    then have "fst p < length xs \<and> fst q < length xs \<and> fst p \<noteq> fst q \<and> xs ! fst p = xs ! fst q"
      by (simp add: in_set_enumerate_eq)
    then show "\<exists>i<length xs. \<exists>j<length xs. i \<noteq> j \<and> xs ! i = xs ! j" by blast
  next
    assume "\<exists>i<length xs. \<exists>j<length xs. i \<noteq> j \<and> xs ! i = xs ! j"
    then obtain i j where ij: "i < length xs" "j < length xs" "i \<noteq> j" "xs ! i = xs ! j" by blast
    then have pi: "(i, xs ! i) \<in> set (enumerate 0 xs)" and pj: "(j, xs ! j) \<in> set (enumerate 0 xs)"
      by (simp_all add: in_set_enumerate_eq)
    show "\<exists>p\<in>set (enumerate 0 xs). \<exists>q\<in>set (enumerate 0 xs). fst p \<noteq> fst q \<and> snd p = snd q"
      by (rule bexI[OF _ pi], rule bexI[OF _ pj]) (use ij in simp)
  qed
  also have "\<dots> \<longleftrightarrow> \<not> distinct xs"
    by (auto simp: distinct_conv_nth)
  finally show ?thesis .
qed

lemma not_distinct_concat:
  assumes "i < j" "j < length xss" "x \<in> set (xss ! i)" "x \<in> set (xss ! j)"
  shows "\<not> distinct (concat xss)"
proof -
  have i: "i < length xss" using assms by simp
  have split: "xss = take i xss @ xss ! i # drop (Suc i) xss"
    using i by (rule id_take_nth_drop)
  have "xss ! j = drop (Suc i) xss ! (j - Suc i)" "j - Suc i < length (drop (Suc i) xss)"
    using assms by simp_all
  then have "xss ! j \<in> set (drop (Suc i) xss)" by (metis nth_mem)
  with assms(4) have "x \<in> set (concat (drop (Suc i) xss))" by auto
  with assms(3) have nd: "\<not> distinct (xss ! i @ concat (drop (Suc i) xss))" by auto
  have "concat xss = concat (take i xss @ xss ! i # drop (Suc i) xss)"
    by (rule arg_cong[where f = concat, OF split])
  also have "\<dots> = concat (take i xss) @ (xss ! i @ concat (drop (Suc i) xss))"
    by simp
  finally have "distinct (concat xss) \<Longrightarrow> distinct (xss ! i @ concat (drop (Suc i) xss))"
    by (simp only: distinct_append)
  with nd show ?thesis by blast
qed

subsection \<open>The movement callback\<close>

lemma findIndex_None_iff: "findIndex P xs = None \<longleftrightarrow> (\<forall>x\<in>set xs. \<not> P x)"
  by (induction xs) auto

lemma findIndex_SomeD:
  "findIndex P xs = Some k \<Longrightarrow> k < length xs \<and> P (xs ! k) \<and> (\<forall>j<k. \<not> P (xs ! j))"
proof (induction xs arbitrary: k)
  case Nil
  then show ?case by simp
next
  case (Cons x xs)
  show ?case
  proof (cases "P x")
    case True
    with Cons.prems show ?thesis by simp
  next
    case False
    with Cons.prems obtain k' where k': "findIndex P xs = Some k'" "k = Suc k'" by auto
    from Cons.IH[OF k'(1)] False k'(2) show ?thesis
      by (auto simp: nth_Cons' less_Suc_eq_0_disj)
  qed
qed

lemma findIndex_cell: "findIndex (\<lambda>f. fst f = fst h \<and> snd f = snd h) pf = findIndex (\<lambda>f. f = h) pf"
  by (simp add: prod_eq_iff)

lemma moveSnake_cases:
  "moveSnake pf i sn v =
     (case newHead sn of
        None \<Rightarrow> Inl TypeError
      | Some h \<Rightarrow>
          Inr (if outOfGrid h then (sn, v\<lparr>running := False\<rparr>)
               else case findIndex (\<lambda>f. f = h) pf of
                      Some k \<Rightarrow> (sn\<lparr>body := h # body sn\<rparr>,
                                 v\<lparr>newScores := incrementAt (newScores v) i,
                                   newFood := removeIndex pf k\<rparr>)
                    | None \<Rightarrow> (sn\<lparr>body := h # butlast (body sn)\<rparr>, v)))"
  by (simp add: moveSnake_def newHead_def Let_def findIndex_cell split: list.splits option.splits)

lemma moveSnake_snake:
  assumes "moveSnake pf i sn v = Inr (sn', v')"
  shows "\<exists>h. newHead sn = Some h \<and> sn' = movedSnake pf sn h
           \<and> (running v' \<longleftrightarrow> running v \<and> \<not> outOfGrid h)"
proof -
  from assms obtain h where h: "newHead sn = Some h"
    by (auto simp: moveSnake_cases split: option.splits)
  show ?thesis
  proof (cases "findIndex (\<lambda>f. f = h) pf")
    case None
    then have "h \<notin> set pf" by (auto simp: findIndex_None_iff)
    with assms h None show ?thesis by (auto simp: moveSnake_cases movedSnake_def split: if_splits)
  next
    case (Some k)
    from findIndex_SomeD[OF Some] have "h \<in> set pf" by (metis nth_mem)
    with assms h Some show ?thesis by (auto simp: moveSnake_cases movedSnake_def split: if_splits)
  qed
qed

lemma moveSnake_eats:
  assumes "newHead sn = Some h" "\<not> outOfGrid h" "findIndex (\<lambda>f. f = h) pf = Some k"
  shows "moveSnake pf i sn v =
           Inr (sn\<lparr>body := h # body sn\<rparr>,
                v\<lparr>newScores := incrementAt (newScores v) i,
                  newFood := take k pf @ drop (Suc k) pf\<rparr>)"
  using assms by (simp add: moveSnake_cases removeIndex_eq)

lemma movedSnake_head:
  "\<not> outOfGrid h \<Longrightarrow> h \<in> set (body (movedSnake pf sn h))"
  by (simp add: movedSnake_def)

lemma moveSnake_running:
  "moveSnake pf i sn v = Inr (sn', v') \<Longrightarrow> running v' \<Longrightarrow> running v"
  by (auto simp: moveSnake_def Let_def split: list.splits if_splits option.splits)

lemma moveSnakes_ConsD:
  assumes "moveSnakes pf i (sn # sns) v = Inr (res, v')"
  obtains sn1 v1 rest where "moveSnake pf i sn v = Inr (sn1, v1)"
    and "moveSnakes pf (Suc i) sns v1 = Inr (rest, v')" and "res = sn1 # rest"
  using assms by (auto split: sum.splits prod.splits)

lemma moveSnakes_running:
  "moveSnakes pf i sns v = Inr (sns', v') \<Longrightarrow> running v' \<Longrightarrow> running v"
proof (induction sns arbitrary: i v sns' v')
  case Nil
  then show ?case by simp
next
  case (Cons sn sns)
  from Cons.prems(1) obtain sn1 v1 rest where
    one: "moveSnake pf i sn v = Inr (sn1, v1)" and
    more: "moveSnakes pf (Suc i) sns v1 = Inr (rest, v')"
    by (auto split: sum.splits prod.splits)
  from Cons.IH[OF more Cons.prems(2)] have "running v1" .
  with one show ?case by (rule moveSnake_running)
qed

lemma moveSnakes_nth:
  assumes "moveSnakes pf i sns v = Inr (sns', v')"
  shows "length sns' = length sns
         \<and> (\<forall>j<length sns. \<exists>h. newHead (sns ! j) = Some h
               \<and> sns' ! j = movedSnake pf (sns ! j) h)"
  using assms
proof (induction sns arbitrary: i v sns')
  case Nil
  then show ?case by simp
next
  case (Cons sn sns)
  from Cons.prems obtain sn1 v1 rest where
    one: "moveSnake pf i sn v = Inr (sn1, v1)" and
    more: "moveSnakes pf (Suc i) sns v1 = Inr (rest, v')" and res: "sns' = sn1 # rest"
    by (rule moveSnakes_ConsD)
  from moveSnake_snake[OF one] obtain h where
    h: "newHead sn = Some h" "sn1 = movedSnake pf sn h" by blast
  from Cons.IH[OF more] have len: "length rest = length sns" and
    nth: "\<And>j. j < length sns \<Longrightarrow> \<exists>h. newHead (sns ! j) = Some h
               \<and> rest ! j = movedSnake pf (sns ! j) h" by blast+
  have "\<exists>h. newHead ((sn # sns) ! j) = Some h
               \<and> sns' ! j = movedSnake pf ((sn # sns) ! j) h" if "j < length (sn # sns)" for j
  proof (cases j)
    case 0
    with h res show ?thesis by simp
  next
    case (Suc j')
    with that have "j' < length sns" by simp
    from nth[OF this] Suc res show ?thesis by simp
  qed
  with len res show ?case by simp
qed

lemma moveSnakes_running_iff:
  assumes "moveSnakes pf i sns v = Inr (sns', v')"
  shows "running v' \<longleftrightarrow> running v \<and> (\<forall>sn\<in>set sns. \<forall>h. newHead sn = Some h \<longrightarrow> \<not> outOfGrid h)"
  using assms
proof (induction sns arbitrary: i v sns')
  case Nil
  then show ?case by simp
next
  case (Cons sn sns)
  from Cons.prems obtain sn1 v1 rest where
    one: "moveSnake pf i sn v = Inr (sn1, v1)" and
    more: "moveSnakes pf (Suc i) sns v1 = Inr (rest, v')" and res: "sns' = sn1 # rest"
    by (rule moveSnakes_ConsD)
  from moveSnake_snake[OF one] Cons.IH[OF more] show ?case by auto
qed

lemma moveSnakes_total:
  "\<forall>sn\<in>set sns. body sn \<noteq> [] \<Longrightarrow> \<exists>sns' v'. moveSnakes pf i sns v = Inr (sns', v')"
proof (induction sns arbitrary: i v)
  case Nil
  then show ?case by simp
next
  case (Cons sn sns)
  then obtain h0 t where "body sn = h0 # t" by (cases "body sn") auto
  then obtain sn1 v1 where one: "moveSnake pf i sn v = Inr (sn1, v1)"
    by (cases "moveSnake pf i sn v") (auto simp: moveSnake_cases newHead_def)
  from Cons obtain rest v2 where "moveSnakes pf (Suc i) sns v1 = Inr (rest, v2)"
    by fastforce
  with one show ?case by simp
qed

subsection \<open>Direction resolution and the structure of a tick\<close>

lemma collect_aiDirection_bodies:
  "collect (map (aiDirection ps fl) (enumerate n sns)) = Inr directed \<Longrightarrow>
     map body directed = map body sns"
proof (induction sns arbitrary: n directed)
  case Nil
  then show ?case by simp
next
  case (Cons sn sns)
  from Cons.prems obtain x xs where
    x: "aiDirection ps fl (n, sn) = Inr x" and
    xs: "collect (map (aiDirection ps fl) (enumerate (Suc n) sns)) = Inr xs" and
    d: "directed = x # xs"
    by (auto split: sum.splits)
  from x have "body x = body sn"
    by (auto simp: aiDirection_def Let_def split: if_splits sum.splits)
  with Cons.IH[OF xs] d show ?case by simp
qed

lemma resolveDirections_bodies:
  "resolveDirections s = Inr directed \<Longrightarrow> map body directed = map body (snakes s)"
  by (cases "gameMode s")
     (auto simp: resolveDirections_def collect_aiDirection_bodies split: list.splits sum.splits)

lemma movePhase_InrD:
  assumes "movePhase s = Inr (moved, vars)"
  obtains directed where "resolveDirections s = Inr directed"
    and "moveSnakes (food s) 0 directed
           \<lparr>running = isRunning s, newScores = scores s, newFood = food s\<rparr> = Inr (moved, vars)"
  using assms by (auto simp: movePhase_def split: sum.splits)

lemma updateGame_after_movePhase:
  assumes "movePhase s = Inr (moved, vars)"
  shows "updateGame draws s =
           (case replenish draws moved (newFood vars) of
              None \<Rightarrow> None
            | Some foods \<Rightarrow>
                Some (Inr (s\<lparr>snakes := moved, food := foods, scores := newScores vars,
                              isRunning := running vars \<and> distinct (concat (map body moved))\<rparr>)))"
  using assms by (auto simp: updateGame_def hasCollision_iff split: option.splits)

subsection \<open>Growth and score of one snake\<close>

text \<open>
  In the movement phase a snake whose new head is outside the grid keeps body and score; a
  snake whose new head is in the grid and on no food cell keeps its length and its score;
  a snake whose new head is in the grid and on a food cell grows by the new head and its
  score slot is incremented.
\<close>

lemma moveSnake_scores:
  assumes "moveSnake pf i sn v = Inr (sn', v')" "newHead sn = Some h"
  shows "newScores v' = (if \<not> outOfGrid h \<and> h \<in> set pf then incrementAt (newScores v) i
                         else newScores v)"
proof (cases "findIndex (\<lambda>f. f = h) pf")
  case None
  then have "h \<notin> set pf" by (auto simp: findIndex_None_iff)
  with assms None show ?thesis by (auto simp: moveSnake_cases split: if_splits)
next
  case (Some k)
  from findIndex_SomeD[OF Some] have "h \<in> set pf" by (metis nth_mem)
  with assms Some show ?thesis by (auto simp: moveSnake_cases split: if_splits)
qed

lemma moveSnakes_scores:
  assumes "moveSnakes pf i sns v = Inr (sns', v')" "i + length sns \<le> length (newScores v)"
  shows "length (newScores v') = length (newScores v)
         \<and> (\<forall>k<length sns. \<forall>h. newHead (sns ! k) = Some h \<longrightarrow>
               newScores v' ! (i + k) =
                 (if \<not> outOfGrid h \<and> h \<in> set pf then plusOne (newScores v ! (i + k))
                  else newScores v ! (i + k)))
         \<and> (\<forall>k<i. newScores v' ! k = newScores v ! k)"
  using assms
proof (induction sns arbitrary: i v sns')
  case Nil
  then show ?case by simp
next
  case (Cons sn sns)
  from Cons.prems(1) obtain sn1 v1 rest where
    one: "moveSnake pf i sn v = Inr (sn1, v1)" and
    more: "moveSnakes pf (Suc i) sns v1 = Inr (rest, v')" and res: "sns' = sn1 # rest"
    by (rule moveSnakes_ConsD)
  from moveSnake_snake[OF one] obtain h0 where h0: "newHead sn = Some h0" by blast
  from Cons.prems(2) have i: "i < length (newScores v)" by simp
  let ?eat = "\<not> outOfGrid h0 \<and> h0 \<in> set pf"
  from moveSnake_scores[OF one h0] i have v1:
    "newScores v1 = (if ?eat then (newScores v)[i := plusOne (newScores v ! i)] else newScores v)"
    by (simp add: incrementAt_def)
  then have len1: "length (newScores v1) = length (newScores v)" by simp
  with Cons.prems(2) have "Suc i + length sns \<le> length (newScores v1)" by simp
  from Cons.IH[OF more this] have
    len: "length (newScores v') = length (newScores v1)" and
    later: "\<And>k h. k < length sns \<Longrightarrow> newHead (sns ! k) = Some h \<Longrightarrow>
               newScores v' ! (Suc i + k) =
                 (if \<not> outOfGrid h \<and> h \<in> set pf then plusOne (newScores v1 ! (Suc i + k))
                  else newScores v1 ! (Suc i + k))" and
    earlier: "\<And>k. k < Suc i \<Longrightarrow> newScores v' ! k = newScores v1 ! k"
    by blast+
  have at_i: "newScores v1 ! i = (if ?eat then plusOne (newScores v ! i) else newScores v ! i)"
    using v1 i by simp
  have other: "newScores v1 ! k = newScores v ! k" if "k \<noteq> i" for k
    using v1 that by simp
  have a: "newScores v' ! (i + k) =
            (if \<not> outOfGrid h \<and> h \<in> set pf then plusOne (newScores v ! (i + k))
             else newScores v ! (i + k))"
    if k: "k < length (sn # sns)" and h: "newHead ((sn # sns) ! k) = Some h" for k h
  proof (cases k)
    case 0
    with h h0 have "h = h0" by simp
    with earlier[of i] at_i 0 show ?thesis by simp
  next
    case (Suc k')
    with k h have "k' < length sns" "newHead (sns ! k') = Some h" by simp_all
    from later[OF this] other[of "Suc i + k'"] Suc show ?thesis by simp
  qed
  have b: "newScores v' ! k = newScores v ! k" if "k < i" for k
    using earlier[of k] other[of k] that by simp
  from a b len len1 show ?case by simp
qed

lemma snake_growth_and_score:
  assumes dir: "resolveDirections s = Inr directed"
    and mp: "movePhase s = Inr (moved, vars)"
    and j: "j < length directed"
    and sc: "length directed \<le> length (scores s)"
    and h: "newHead (directed ! j) = Some h"
  shows "(outOfGrid h \<longrightarrow>
            body (moved ! j) = body (snakes s ! j) \<and> newScores vars ! j = scores s ! j)
         \<and> (\<not> outOfGrid h \<and> h \<notin> set (food s) \<longrightarrow>
              body (moved ! j) = h # butlast (body (snakes s ! j))
              \<and> length (body (moved ! j)) = length (body (snakes s ! j))
              \<and> newScores vars ! j = scores s ! j)
         \<and> (\<not> outOfGrid h \<and> h \<in> set (food s) \<longrightarrow>
              body (moved ! j) = h # body (snakes s ! j)
              \<and> length (body (moved ! j)) = length (body (snakes s ! j)) + 1
              \<and> newScores vars ! j = plusOne (scores s ! j))"
proof -
  from mp dir have ms: "moveSnakes (food s) 0 directed
           \<lparr>running = isRunning s, newScores = scores s, newFood = food s\<rparr> = Inr (moved, vars)"
    by (auto simp: movePhase_def)
  from moveSnakes_nth[OF ms] j h have mj: "moved ! j = movedSnake (food s) (directed ! j) h"
    by (metis option.inject)
  from resolveDirections_bodies[OF dir] j have bj: "body (directed ! j) = body (snakes s ! j)"
    by (metis length_map nth_map)
  from h have ne: "body (snakes s ! j) \<noteq> []"
    unfolding bj[symmetric] by (auto simp: newHead_def split: list.splits)
  from moveSnakes_scores[OF ms] sc j h have
    scj: "newScores vars ! j = (if \<not> outOfGrid h \<and> h \<in> set (food s) then plusOne (scores s ! j)
                               else scores s ! j)"
    by (metis (no_types, lifting) TickVars.select_convs(2) add_0)
  show ?thesis
    using mj bj ne scj by (simp add: movedSnake_def)
qed

subsection \<open>Well-formed states\<close>

text \<open>A tick of a well-formed state does not raise, and well-formedness is an invariant.\<close>

lemma getNextDirection_total:
  assumes "body snake \<noteq> []" "foodList \<noteq> []" "body otherSnake \<noteq> []"
  shows "\<exists>d. getNextDirection snake foodList otherSnake = Inr d"
  using assms by (auto simp: getNextDirection_def Let_def split: list.splits)

lemma wellFormed_resolveDirections:
  assumes "wellFormed s"
  shows "\<exists>directed. resolveDirections s = Inr directed"
proof -
  from assms obtain a b where ab: "snakes s = [a, b]" "body a \<noteq> []" "body b \<noteq> []"
    and fd: "food s \<noteq> []"
    by (auto simp: wellFormed_def length_Suc_conv numeral_2_eq_2)
  from getNextDirection_total[OF ab(2) fd ab(3)] obtain da where
    da: "getNextDirection a (food s) b = Inr da" by blast
  from getNextDirection_total[OF ab(3) fd ab(2)] obtain db where
    db: "getNextDirection b (food s) a = Inr db" by blast
  show ?thesis
    using ab(1) da db by (cases "gameMode s") (simp_all add: resolveDirections_def aiDirection_def)
qed

lemma wellFormed_movePhase:
  assumes "wellFormed s"
  shows "\<exists>moved vars. movePhase s = Inr (moved, vars)"
proof -
  from wellFormed_resolveDirections[OF assms] obtain directed where
    dir: "resolveDirections s = Inr directed" by blast
  from resolveDirections_bodies[OF dir] assms have "\<forall>sn\<in>set directed. body sn \<noteq> []"
    by (metis (no_types, lifting) wellFormed_def image_iff image_set list.set_map)
  from moveSnakes_total[OF this] dir show ?thesis by (simp add: movePhase_def)
qed

lemma wellFormed_updateGame_no_error:
  "wellFormed s \<Longrightarrow> updateGame draws s \<noteq> Some (Inl e)"
  using wellFormed_movePhase[of s]
  by (auto simp: updateGame_def split: option.splits sum.splits)

lemma wellFormed_startGame:
  "startGame mode draws prev = Some s \<Longrightarrow> wellFormed s"
  by (auto simp: startGame_def createInitialState_def wellFormed_def initialSnakes_def
      split: option.splits)

lemma movedSnake_body_nonempty:
  "body sn \<noteq> [] \<Longrightarrow> body (movedSnake pf sn h) \<noteq> []"
  by (simp add: movedSnake_def)

lemma wellFormed_updateGame:
  assumes wf: "wellFormed s" and ret: "updateGame draws s = Some (Inr s')"
  shows "wellFormed s'"
proof -
  from wellFormed_resolveDirections[OF wf] obtain directed where
    dir: "resolveDirections s = Inr directed" by blast
  from wellFormed_movePhase[OF wf] obtain moved vars where
    mp: "movePhase s = Inr (moved, vars)" by blast
  from mp dir have ms: "moveSnakes (food s) 0 directed
           \<lparr>running = isRunning s, newScores = scores s, newFood = food s\<rparr> = Inr (moved, vars)"
    by (auto simp: movePhase_def)
  from resolveDirections_bodies[OF dir] have bodies: "map body directed = map body (snakes s)" .
  then have len_d: "length directed = 2" using wf by (metis length_map wellFormed_def)
  from ret obtain foods where s': "s' = s\<lparr>snakes := moved, food := foods, scores := newScores vars,
       isRunning := running vars \<and> distinct (concat (map body moved))\<rparr>"
    and foods: "replenish draws moved (newFood vars) = Some foods"
    by (auto simp: updateGame_after_movePhase[OF mp] split: option.splits)
  from moveSnakes_nth[OF ms] have len_m: "length moved = length directed"
    and nth: "\<And>k. k < length directed \<Longrightarrow>
                \<exists>hk. newHead (directed ! k) = Some hk
                   \<and> moved ! k = movedSnake (food s) (directed ! k) hk"
    by blast+
  have ne: "body sn \<noteq> []" if "sn \<in> set moved" for sn
  proof -
    from that obtain k where k: "k < length moved" "sn = moved ! k"
      by (metis in_set_conv_nth)
    with nth[of k] len_m obtain hk where hk: "newHead (directed ! k) = Some hk"
      "sn = movedSnake (food s) (directed ! k) hk" by auto
    from hk(1) have "body (directed ! k) \<noteq> []" by (auto simp: newHead_def split: list.splits)
    with hk(2) show ?thesis by (simp add: movedSnake_body_nonempty)
  qed
  from foods have fne: "foods \<noteq> []"
    by (auto simp: replenish_cases split: if_splits)
  from moveSnakes_scores[OF ms] len_d wf have "length (newScores vars) = 2"
    by (simp add: wellFormed_def)
  with ne fne len_m len_d show ?thesis by (simp add: wellFormed_def s')
qed

lemma wellFormed_setFoodPosition: "wellFormed s \<Longrightarrow> wellFormed (setFoodPosition p s)"
  by (simp add: wellFormed_def setFoodPosition_def)

lemma wellFormed_setSnakeDirection:
  assumes "wellFormed s" "setSnakeDirection i d s = Inr s'"
  shows "wellFormed s'"
proof -
  from assms(2) have i: "0 \<le> i" "i < int (length (snakes s))"
    by (auto simp: setSnakeDirection_def split: if_splits)
  let ?k = "nat i"
  let ?y = "(snakes s ! ?k)\<lparr>direction := d\<rparr>"
  from assms(2) i have "s' = s \<or> s' = s\<lparr>snakes := (snakes s)[?k := ?y]\<rparr>"
    by (auto simp: setSnakeDirection_def Let_def setSnakeDirection_newSnakes split: if_splits)
  moreover have "wellFormed (s\<lparr>snakes := (snakes s)[?k := ?y]\<rparr>)"
  proof -
    from i have k: "?k < length (snakes s)" by simp
    then have "snakes s ! ?k \<in> set (snakes s)" by simp
    with assms(1) have "body ?y \<noteq> []" by (simp add: wellFormed_def)
    moreover have "set ((snakes s)[?k := ?y]) \<subseteq> insert ?y (set (snakes s))"
      by (rule set_update_subset_insert)
    ultimately have "\<forall>sn\<in>set ((snakes s)[?k := ?y]). body sn \<noteq> []"
      using assms(1) by (auto simp: wellFormed_def)
    with assms(1) show ?thesis by (simp add: wellFormed_def)
  qed
  ultimately show ?thesis using assms(1) by auto
qed

subsection \<open>Ticks of the example states\<close>

lemma updateGame_exampleStopped:
  "updateGame [] exampleStopped =
     Some (Inr (exampleStopped\<lparr>snakes := [\<lparr>body = [(6, 5)], direction = RIGHT\<rparr>,
                                          \<lparr>body = [(33, 24)], direction = LEFT\<rparr>]\<rparr>))"
  by (simp add: updateGame_def movePhase_def resolveDirections_def moveSnake_def outOfGrid_def
      replenish_def hasCollision_def example_defs)

lemma movePhase_exampleAtWall:
  "movePhase exampleAtWall =
     Inr ([\<lparr>body = [(39, 5), (38, 5)], direction = RIGHT\<rparr>,
           \<lparr>body = [(33, 24)], direction = LEFT\<rparr>],
          \<lparr>running = False, newScores = [Num 0, Num 0], newFood = [(20, 20)]\<rparr>)"
  by (simp add: tick_defs exampleAtWall_def example_defs)

lemma movePhase_exampleHeadOn:
  "movePhase exampleHeadOn =
     Inr ([\<lparr>body = [(11, 10)], direction = RIGHT\<rparr>,
           \<lparr>body = [(11, 10)], direction = LEFT\<rparr>],
          \<lparr>running = True, newScores = [Num 0, Num 0], newFood = [(20, 20)]\<rparr>)"
  by (simp add: tick_defs exampleHeadOn_def example_defs)

lemma movePhase_exampleEatLast:
  "movePhase exampleEatLast =
     Inr ([\<lparr>body = [(6, 5), (5, 5)], direction = RIGHT\<rparr>,
           \<lparr>body = [(33, 24)], direction = LEFT\<rparr>],
          \<lparr>running = True, newScores = [Num 1, Num 0], newFood = []\<rparr>)"
  by (simp add: tick_defs exampleEatLast_def example_defs)

lemma exampleDraws_positions:
  "generateRandomPosition (5 / 32, 3 / 16) = (6, 5)"
  "generateRandomPosition (1 / 2, 1 / 2) = (20, 15)"
  by (simp_all add: sampler_defs)

lemma exampleDraws_valid: "list_all validDraw exampleDraws"
  by (simp add: exampleDraws_def validDraw_def isRandomNumber_def sampler_defs)

lemma generateFood_exampleEatLast:
  "generateFood [\<lparr>body = [(6, 5), (5, 5)], direction = RIGHT\<rparr>,
                 \<lparr>body = [(33, 24)], direction = LEFT\<rparr>] [] exampleDraws = Some (20, 15)"
  by (simp add: exampleDraws_def exampleDraws_positions isPositionOccupied_def)

lemma updateGame_exampleEatLast:
  "updateGame exampleDraws exampleEatLast =
     Some (Inr (exampleEatLast\<lparr>snakes := [\<lparr>body = [(6, 5), (5, 5)], direction = RIGHT\<rparr>,
                                          \<lparr>body = [(33, 24)], direction = LEFT\<rparr>],
                               food := [(20, 15)], scores := [Num 1, Num 0]\<rparr>))"
  by (simp add: updateGame_after_movePhase[OF movePhase_exampleEatLast] replenish_cases
      generateFood_exampleEatLast)
     (simp add: exampleEatLast_def example_defs)

lemma movePhase_exampleBothEat:
  "movePhase exampleBothEat =
     Inr ([\<lparr>body = [(6, 5), (5, 5)], direction = RIGHT\<rparr>,
           \<lparr>body = [(33, 24), (34, 24)], direction = LEFT\<rparr>],
          \<lparr>running = True, newScores = [Num 1, Num 1], newFood = [(6, 5)]\<rparr>)"
  by (simp add: tick_defs exampleBothEat_def example_defs)

section \<open>The tick on a stopped game (C1)\<close>

text \<open>
  \<^verbatim>\<open>updateGame\<close> does not test the running flag, so a tick on a stopped game is not a
  no-op: in the stopped example both snakes advance one cell.
\<close>

theorem updateGame_not_running_counterexample:
  "\<not> isRunning exampleStopped
   \<and> updateGame [] exampleStopped =
       Some (Inr (exampleStopped\<lparr>snakes := [\<lparr>body = [(6, 5)], direction = RIGHT\<rparr>,
                                            \<lparr>body = [(33, 24)], direction = LEFT\<rparr>]\<rparr>))
   \<and> exampleStopped\<lparr>snakes := [\<lparr>body = [(6, 5)], direction = RIGHT\<rparr>,
                               \<lparr>body = [(33, 24)], direction = LEFT\<rparr>]\<rparr> \<noteq> exampleStopped"
  by (simp add: updateGame_exampleStopped) (simp add: example_defs)

text \<open>
  C1, as the code has it. The running flag gates the tick in the timer callback
  \<^verbatim>\<open>gameLoop\<close>, which leaves a stopped game untouched. \<^verbatim>\<open>updateGame\<close> itself, called on a
  stopped game, still performs the update; what it never does is set the running flag back
  to true, and it leaves speed, colours and game mode as they were.
\<close>

theorem updateGame_not_running:
  assumes "\<not> isRunning s"
  shows "(\<forall>s'. updateGame draws s = Some (Inr s') \<longrightarrow>
            \<not> isRunning s' \<and> speed s' = speed s \<and> snakeColors s' = snakeColors s
            \<and> gameMode s' = gameMode s)
         \<and> gameLoop draws s = Some (Inr s)"
proof -
  have "\<not> isRunning s' \<and> speed s' = speed s \<and> snakeColors s' = snakeColors s
        \<and> gameMode s' = gameMode s" if ret: "updateGame draws s = Some (Inr s')" for s'
  proof -
    from ret obtain moved vars foods where
      mp: "movePhase s = Inr (moved, vars)" and
      s': "s' = s\<lparr>snakes := moved, food := foods, scores := newScores vars,
                   isRunning := (if hasCollision (concat (map body moved))
                                 then False else running vars)\<rparr>"
      by (auto simp: updateGame_def split: sum.splits prod.splits option.splits)
    from mp obtain directed where
      "moveSnakes (food s) 0 directed
         \<lparr>running = isRunning s, newScores = scores s, newFood = food s\<rparr> = Inr (moved, vars)"
      by (auto simp: movePhase_def split: sum.splits)
    from moveSnakes_running[OF this] assms have "\<not> running vars" by auto
    with s' show ?thesis by simp
  qed
  moreover have "gameLoop draws s = Some (Inr s)"
    using assms by (simp add: gameLoop_def)
  ultimately show ?thesis by blast
qed

theorem updateGame_not_running_witness:
  "updateGame [] exampleStopped =
     Some (Inr (exampleStopped\<lparr>snakes := [\<lparr>body = [(6, 5)], direction = RIGHT\<rparr>,
                                          \<lparr>body = [(33, 24)], direction = LEFT\<rparr>]\<rparr>))
   \<and> \<not> isRunning (exampleStopped\<lparr>snakes := [\<lparr>body = [(6, 5)], direction = RIGHT\<rparr>,
                                          \<lparr>body = [(33, 24)], direction = LEFT\<rparr>]\<rparr>)
   \<and> gameLoop [] exampleStopped = Some (Inr exampleStopped)"
proof -
  have "\<not> isRunning exampleStopped" by (simp add: example_defs)
  from updateGame_not_running[OF this, of "[]"] updateGame_exampleStopped
  show ?thesis by simp
qed

section \<open>Setting a direction (C2)\<close>

text \<open>
  An index outside the snake array is not absorbed: the updater raises.
\<close>

lemma setSnakeDirection_invalid_index:
  "i < 0 \<or> int (length (snakes s)) \<le> i \<Longrightarrow> setSnakeDirection i d s = Inl TypeError"
  by (auto simp: setSnakeDirection_def)

text \<open>
  \<^verbatim>\<open>setSnakeDirection\<close> does not test the running flag (only the key handler of the board
  does): on the stopped example a perpendicular direction is stored. An index outside the
  array raises. And the state is also unchanged, on a running game, when the requested
  direction is the current one.
\<close>

theorem setSnakeDirection_counterexample:
  "\<not> isRunning exampleStopped
   \<and> setSnakeDirection 0 UP exampleStopped \<noteq> Inr exampleStopped
   \<and> setSnakeDirection 2 UP exampleRunning = Inl TypeError
   \<and> isRunning exampleRunning
   \<and> RIGHT \<noteq> opposites (direction (snakes exampleRunning ! 0))
   \<and> setSnakeDirection 0 RIGHT exampleRunning = Inr exampleRunning"
  by (simp add: setSnakeDirection_def example_defs)

text \<open>
  C2, as the code has it. For a valid snake index, whether or not the game is running: the
  state is returned as it is when the direction is the opposite of the snake's current
  one; otherwise only that snake's direction is replaced. So the state is unchanged exactly
  when the direction is the opposite of, or equal to, the current one; bodies, food,
  scores, running flag, speed, colours and mode are the same in every case.
\<close>

theorem setSnakeDirection_valid_index:
  assumes "0 \<le> i" "i < int (length (snakes s))"
  shows "setSnakeDirection i d s =
           Inr (if d = opposites (direction (snakes s ! nat i)) then s
                else s\<lparr>snakes := (snakes s)[nat i := (snakes s ! nat i)\<lparr>direction := d\<rparr>]\<rparr>)
         \<and> (setSnakeDirection i d s = Inr s \<longleftrightarrow>
               d = opposites (direction (snakes s ! nat i)) \<or> d = direction (snakes s ! nat i))
         \<and> (\<exists>s'. setSnakeDirection i d s = Inr s'
                \<and> map body (snakes s') = map body (snakes s) \<and> food s' = food s
                \<and> scores s' = scores s \<and> isRunning s' = isRunning s
                \<and> speed s' = speed s \<and> snakeColors s' = snakeColors s
                \<and> gameMode s' = gameMode s)"
proof -
  let ?k = "nat i"
  let ?cur = "direction (snakes s ! ?k)"
  let ?upd = "s\<lparr>snakes := (snakes s)[?k := (snakes s ! ?k)\<lparr>direction := d\<rparr>]\<rparr>"
  have k: "?k < length (snakes s)" using assms by simp
  have opp: "opposites ?cur = d \<longleftrightarrow> d = opposites ?cur"
    by (auto simp: opposites_involution)
  have eq: "setSnakeDirection i d s = Inr (if d = opposites ?cur then s else ?upd)"
    using assms by (simp add: setSnakeDirection_def Let_def setSnakeDirection_newSnakes opp)
  have same: "?upd = s \<longleftrightarrow> d = ?cur"
    using k by (simp add: snakes_update_same list_update_same_conv direction_update_same)
  have bodies: "map body (snakes ?upd) = map body (snakes s)"
    using k by (simp add: map_update list_update_same_conv)
  show ?thesis
    using eq same bodies by auto
qed

theorem setSnakeDirection_valid_index_witness:
  "setSnakeDirection 0 LEFT exampleRunning = Inr exampleRunning
   \<and> setSnakeDirection 0 RIGHT exampleRunning = Inr exampleRunning
   \<and> setSnakeDirection 0 UP exampleRunning \<noteq> Inr exampleRunning
   \<and> setSnakeDirection 1 DOWN exampleStopped =
       Inr (exampleStopped\<lparr>snakes := [\<lparr>body = [(5, 5)], direction = RIGHT\<rparr>,
                                       \<lparr>body = [(34, 24)], direction = DOWN\<rparr>]\<rparr>)"
  using setSnakeDirection_valid_index[of 0 exampleRunning LEFT]
        setSnakeDirection_valid_index[of 0 exampleRunning RIGHT]
        setSnakeDirection_valid_index[of 0 exampleRunning UP]
        setSnakeDirection_valid_index[of 1 exampleStopped DOWN]
  by (simp add: example_defs)

section \<open>Starting a game (C3)\<close>

text \<open>
  The second snake starts at \<open>(GRID_WIDTH - 6, GRID_HEIGHT - 6) = (34, 24)\<close>, not at
  \<open>(34, 23)\<close>.
\<close>

theorem startGame_single_counterexample:
  "map_option (\<lambda>s. map body (snakes s))
       (startGame SINGLE [(1 / 8, 3 / 16), (1 / 2, 1 / 2)] exampleStopped)
     = Some [[(5, 5)], [(34, 24)]]
   \<and> [[(5, 5)], [(34, 24)]] \<noteq> [[(5, 5)], [(34, 23 :: int)]]"
  by (simp add: startGame_def createInitialState_def initialSnakes_def sampler_defs
      isPositionOccupied_def)

text \<open>
  C3, with the second snake at \<open>(34, 24)\<close>. When one of the draws falls on a free cell,
  \<^verbatim>\<open>startGame('SINGLE')\<close> returns the state with snake 0 at \<open>[(5, 5)]\<close> heading right,
  snake 1 at \<open>[(34, 24)]\<close> heading left, exactly one food item on a cell neither snake
  occupies, scores \<open>[0, 0]\<close>, the running flag set, and the speed and colours of the
  previous state.
\<close>

theorem startGame_single:
  assumes "\<exists>d\<in>set draws. \<not> isPositionOccupied (generateRandomPosition d) initialSnakes []"
  shows "\<exists>f. startGame SINGLE draws prev =
            Some \<lparr>isRunning = True,
                  snakes = [\<lparr>body = [(5, 5)], direction = RIGHT\<rparr>,
                            \<lparr>body = [(34, 24)], direction = LEFT\<rparr>],
                  food = [f], scores = [Num 0, Num 0], speed = speed prev,
                  snakeColors = snakeColors prev, gameMode = SINGLE\<rparr>
           \<and> f \<noteq> (5, 5) \<and> f \<noteq> (34, 24)"
proof -
  from generateFood_Some[OF assms] obtain p where p: "generateFood initialSnakes [] draws = Some p"
    by blast
  from generateFood_SomeD[OF p] have "p \<noteq> (5, 5)" "p \<noteq> (34, 24)"
    by (auto simp: initial_free_iff)
  with p show ?thesis
    by (simp add: startGame_def createInitialState_def initialSnakes_def GRID_WIDTH_def GRID_HEIGHT_def)
qed

theorem startGame_single_witness:
  "\<exists>f. startGame SINGLE [(1 / 8, 3 / 16), (1 / 2, 1 / 2)] exampleStopped =
            Some \<lparr>isRunning = True,
                  snakes = [\<lparr>body = [(5, 5)], direction = RIGHT\<rparr>,
                            \<lparr>body = [(34, 24)], direction = LEFT\<rparr>],
                  food = [f], scores = [Num 0, Num 0], speed = 150,
                  snakeColors = (''red'', ''blue''), gameMode = SINGLE\<rparr>
           \<and> f \<noteq> (5, 5) \<and> f \<noteq> (34, 24)"
proof -
  have "\<not> isPositionOccupied (generateRandomPosition (1 / 2, 1 / 2)) initialSnakes []"
    by (simp add: initial_free_iff sampler_defs)
  then have "\<exists>d\<in>set [(1 / 8, 3 / 16), (1 / 2, 1 / 2)].
               \<not> isPositionOccupied (generateRandomPosition d) initialSnakes []"
    by simp
  from startGame_single[OF this, of exampleStopped] show ?thesis
    by (simp add: exampleStopped_def exampleRunning_def)
qed

section \<open>Placing food (C4)\<close>

text \<open>
  \<^verbatim>\<open>setFoodPosition\<close> has no bounds test (the click handler of the board has): on a running
  game a free position outside the grid is appended.
\<close>

theorem setFoodPosition_counterexample:
  "isRunning exampleRunning \<and> outOfGrid (40, -1)
   \<and> setFoodPosition (40, -1) exampleRunning \<noteq> exampleRunning"
  by (simp add: setFoodPosition_def isPositionOccupied_def outOfGrid_def example_defs)

text \<open>
  C4, as the code has it. The state is unchanged when the game is not running, or when the
  position is on a snake segment or on an existing food item. In every other case, a
  position outside the grid included, exactly one food item is appended at the position.
\<close>

theorem setFoodPosition_cases:
  "(\<not> isRunning s \<longrightarrow> setFoodPosition p s = s)
   \<and> (p \<in> set (concat (map body (snakes s))) \<or> p \<in> set (food s) \<longrightarrow> setFoodPosition p s = s)
   \<and> (isRunning s \<and> p \<notin> set (concat (map body (snakes s))) \<and> p \<notin> set (food s)
        \<longrightarrow> setFoodPosition p s = s\<lparr>food := food s @ [p]\<rparr>)"
  by (simp add: setFoodPosition_def isPositionOccupied_iff)

theorem setFoodPosition_cases_witness:
  "setFoodPosition (3, 4) exampleStopped = exampleStopped
   \<and> setFoodPosition (5, 5) exampleRunning = exampleRunning
   \<and> setFoodPosition (20, 20) exampleRunning = exampleRunning
   \<and> setFoodPosition (3, 4) exampleRunning = exampleRunning\<lparr>food := [(20, 20), (3, 4)]\<rparr>
   \<and> setFoodPosition (40, -1) exampleRunning = exampleRunning\<lparr>food := [(20, 20), (40, -1)]\<rparr>"
  using setFoodPosition_cases[of exampleStopped "(3, 4)"]
        setFoodPosition_cases[of exampleRunning "(5, 5)"]
        setFoodPosition_cases[of exampleRunning "(20, 20)"]
        setFoodPosition_cases[of exampleRunning "(3, 4)"]
        setFoodPosition_cases[of exampleRunning "(40, -1)"]
  by (simp add: example_defs)

section \<open>Growth, score and removal of eaten food (C5)\<close>

text \<open>
  C5 fails on the code where it says that the eaten item is removed. Each snake's removal
  starts again from \<^verbatim>\<open>prev.food\<close>, so when both snakes eat in one tick the assignment of
  the second snake discards the removal of the first. In the example both snakes grow and
  both score, and the item snake 0 ate, \<open>(6, 5)\<close>, is still in the food list after the tick.
  (Length and score behave as C5 says: lemma \<open>snake_growth_and_score\<close>.)
\<close>

theorem eaten_food_stays_when_both_eat:
  "updateGame [] exampleBothEat =
     Some (Inr (exampleBothEat\<lparr>snakes := [\<lparr>body = [(6, 5), (5, 5)], direction = RIGHT\<rparr>,
                                          \<lparr>body = [(33, 24), (34, 24)], direction = LEFT\<rparr>],
                               food := [(6, 5)], scores := [Num 1, Num 1]\<rparr>))"
  by (simp add: updateGame_after_movePhase[OF movePhase_exampleBothEat] replenish_cases)
     (simp add: exampleBothEat_def example_defs)

section \<open>Wall exit (C6)\<close>

text \<open>
  C6. Take a tick whose direction resolution and movement do not raise and whose food loop
  has enough draws. If the new head of snake \<open>i\<close>, along its resolved direction, is
  outside the grid, then the tick returns a state that is not running, in which snake
  \<open>i\<close> has its body of before the tick, and every other snake is what the movement
  callback makes of it on its own.
\<close>

theorem wall_exit_stops_game:
  assumes dir: "resolveDirections s = Inr directed"
    and mp: "movePhase s = Inr (moved, vars)"
    and fuel: "newFood vars \<noteq> []
               \<or> (\<exists>d\<in>set draws. \<not> isPositionOccupied (generateRandomPosition d) moved [])"
    and i: "i < length directed"
    and h: "newHead (directed ! i) = Some h"
    and out: "outOfGrid h"
  shows "\<exists>s'. updateGame draws s = Some (Inr s') \<and> \<not> isRunning s'
           \<and> length (snakes s') = length (snakes s)
           \<and> body (snakes s' ! i) = body (snakes s ! i)
           \<and> (\<forall>j<length directed. j \<noteq> i \<longrightarrow>
                 (\<exists>hj. newHead (directed ! j) = Some hj
                    \<and> snakes s' ! j = movedSnake (food s) (directed ! j) hj))"
proof -
  from replenish_Some[OF fuel] obtain fs where fs: "replenish draws moved (newFood vars) = Some fs"
    by blast
  define s' where "s' = s\<lparr>snakes := moved, food := fs, scores := newScores vars,
                          isRunning := running vars \<and> distinct (concat (map body moved))\<rparr>"
  have ret: "updateGame draws s = Some (Inr s')"
    using fs by (simp add: updateGame_after_movePhase[OF mp] s'_def)
  from mp dir have ms: "moveSnakes (food s) 0 directed
           \<lparr>running = isRunning s, newScores = scores s, newFood = food s\<rparr> = Inr (moved, vars)"
    by (auto simp: movePhase_def)
  from i have "directed ! i \<in> set directed" by simp
  with moveSnakes_running_iff[OF ms] h out have "\<not> running vars" by blast
  then have stop: "\<not> isRunning s'" by (simp add: s'_def)
  from moveSnakes_nth[OF ms] have len: "length moved = length directed"
    and nth: "\<And>j. j < length directed \<Longrightarrow>
                \<exists>hj. newHead (directed ! j) = Some hj
                   \<and> moved ! j = movedSnake (food s) (directed ! j) hj"
    by blast+
  from resolveDirections_bodies[OF dir] have bodies: "map body directed = map body (snakes s)" .
  then have len2: "length directed = length (snakes s)" by (metis length_map)
  from nth[OF i] h out have "moved ! i = directed ! i" by (simp add: movedSnake_def)
  moreover have "body (directed ! i) = body (snakes s ! i)"
    using bodies i len2 by (metis nth_map)
  ultimately have same: "body (snakes s' ! i) = body (snakes s ! i)" by (simp add: s'_def)
  show ?thesis
    using ret stop same nth len len2 by (intro exI[of _ s']) (simp add: s'_def)
qed

theorem wall_exit_stops_game_witness:
  "\<exists>s'. updateGame [] exampleAtWall = Some (Inr s') \<and> \<not> isRunning s'
      \<and> body (snakes s' ! 0) = [(39, 5), (38, 5)]
      \<and> snakes s' ! 1 = \<lparr>body = [(33, 24)], direction = LEFT\<rparr>"
proof -
  have dir: "resolveDirections exampleAtWall = Inr (snakes exampleAtWall)"
    by (simp add: resolveDirections_def exampleAtWall_def example_defs)
  have fuel: "newFood \<lparr>running = False, newScores = [Num 0, Num 0], newFood = [(20, 20)]\<rparr> \<noteq> []
              \<or> (\<exists>d\<in>set []. \<not> isPositionOccupied (generateRandomPosition d)
                     [\<lparr>body = [(39, 5), (38, 5)], direction = RIGHT\<rparr>,
                      \<lparr>body = [(33, 24)], direction = LEFT\<rparr>] [])"
    by simp
  have i: "0 < length (snakes exampleAtWall)"
    and h: "newHead (snakes exampleAtWall ! 0) = Some (40, 5)"
    and out: "outOfGrid (40, 5)"
    by (simp_all add: exampleAtWall_def example_defs newHead_def outOfGrid_def)
  from wall_exit_stops_game[OF dir movePhase_exampleAtWall fuel i h out]
  obtain s' where s': "updateGame [] exampleAtWall = Some (Inr s')" "\<not> isRunning s'"
    "body (snakes s' ! 0) = body (snakes exampleAtWall ! 0)"
    "\<forall>j<length (snakes exampleAtWall). j \<noteq> 0 \<longrightarrow>
       (\<exists>hj. newHead (snakes exampleAtWall ! j) = Some hj
          \<and> snakes s' ! j = movedSnake (food exampleAtWall) (snakes exampleAtWall ! j) hj)"
    by blast
  from s'(4) have "\<exists>hj. newHead (snakes exampleAtWall ! 1) = Some hj
          \<and> snakes s' ! 1 = movedSnake (food exampleAtWall) (snakes exampleAtWall ! 1) hj"
    by (simp add: exampleAtWall_def example_defs)
  then have "snakes s' ! 1 = \<lparr>body = [(33, 24)], direction = LEFT\<rparr>"
    by (auto simp: exampleAtWall_def example_defs newHead_def movedSnake_def outOfGrid_def)
  with s' show ?thesis
    by (intro exI[of _ s']) (simp add: exampleAtWall_def example_defs)
qed

section \<open>Collisions (C7)\<close>

text \<open>
  C7. Under the same provisos the tick returns a state whose snakes are those of the
  movement phase. Its running flag is set exactly when the flag was set before the tick,
  no snake left the grid, and all body segments of all snakes are pairwise on different
  cells. So any two segments on one cell stop the game, whatever the wall test did; and two
  snakes whose new heads are the same cell stop it.
\<close>

theorem collision_stops_game:
  assumes dir: "resolveDirections s = Inr directed"
    and mp: "movePhase s = Inr (moved, vars)"
    and fuel: "newFood vars \<noteq> []
               \<or> (\<exists>d\<in>set draws. \<not> isPositionOccupied (generateRandomPosition d) moved [])"
  shows "\<exists>s'. updateGame draws s = Some (Inr s') \<and> snakes s' = moved
           \<and> (isRunning s' \<longleftrightarrow>
                 isRunning s
                 \<and> (\<forall>sn\<in>set directed. \<forall>h. newHead sn = Some h \<longrightarrow> \<not> outOfGrid h)
                 \<and> distinct (concat (map body (snakes s'))))
           \<and> (\<not> distinct (concat (map body (snakes s'))) \<longrightarrow> \<not> isRunning s')
           \<and> (\<forall>i j h. i < j \<and> j < length directed \<and> newHead (directed ! i) = Some h
                  \<and> newHead (directed ! j) = Some h \<longrightarrow> \<not> isRunning s')"
proof -
  from replenish_Some[OF fuel] obtain fs where fs: "replenish draws moved (newFood vars) = Some fs"
    by blast
  define s' where "s' = s\<lparr>snakes := moved, food := fs, scores := newScores vars,
                          isRunning := running vars \<and> distinct (concat (map body moved))\<rparr>"
  have ret: "updateGame draws s = Some (Inr s')"
    using fs by (simp add: updateGame_after_movePhase[OF mp] s'_def)
  have sn: "snakes s' = moved" and run: "isRunning s' \<longleftrightarrow> running vars \<and> distinct (concat (map body moved))"
    by (simp_all add: s'_def)
  from mp dir have ms: "moveSnakes (food s) 0 directed
           \<lparr>running = isRunning s, newScores = scores s, newFood = food s\<rparr> = Inr (moved, vars)"
    by (auto simp: movePhase_def)
  from moveSnakes_running_iff[OF ms] have flag:
    "running vars \<longleftrightarrow>
       isRunning s \<and> (\<forall>sn\<in>set directed. \<forall>h. newHead sn = Some h \<longrightarrow> \<not> outOfGrid h)"
    by simp
  have heads: "\<not> isRunning s'"
    if ij: "i < j" "j < length directed" and hi: "newHead (directed ! i) = Some h"
      and hj: "newHead (directed ! j) = Some h" for i j h
  proof (cases "outOfGrid h")
    case True
    from ij have "directed ! i \<in> set directed" by simp
    with moveSnakes_running_iff[OF ms] hi True have "\<not> running vars" by blast
    with run show ?thesis by simp
  next
    case False
    from moveSnakes_nth[OF ms] have len: "length moved = length directed"
      and nth: "\<And>k. k < length directed \<Longrightarrow>
                  \<exists>hk. newHead (directed ! k) = Some hk
                     \<and> moved ! k = movedSnake (food s) (directed ! k) hk"
      by blast+
    have mi: "moved ! i = movedSnake (food s) (directed ! i) h"
      using nth[of i] ij hi by (metis less_trans option.inject)
    have mj: "moved ! j = movedSnake (food s) (directed ! j) h"
      using nth[of j] ij hj by (metis option.inject)
    have "h \<in> set (map body moved ! i)" "h \<in> set (map body moved ! j)"
      using ij len mi mj False by (simp_all add: movedSnake_head)
    with ij len have "\<not> distinct (concat (map body moved))"
      by (intro not_distinct_concat[of i j _ h]) simp_all
    with run show ?thesis by simp
  qed
  have run': "isRunning s' \<longleftrightarrow>
                 isRunning s
                 \<and> (\<forall>sn\<in>set directed. \<forall>h. newHead sn = Some h \<longrightarrow> \<not> outOfGrid h)
                 \<and> distinct (concat (map body (snakes s')))"
    unfolding run sn flag by blast
  have coll: "\<not> distinct (concat (map body (snakes s'))) \<longrightarrow> \<not> isRunning s'"
    unfolding run sn by blast
  show ?thesis
    using ret sn run' coll heads by (intro exI[of _ s']) blast
qed

theorem collision_stops_game_witness:
  "\<exists>s'. updateGame [] exampleHeadOn = Some (Inr s')
      \<and> snakes s' = [\<lparr>body = [(11, 10)], direction = RIGHT\<rparr>,
                     \<lparr>body = [(11, 10)], direction = LEFT\<rparr>]
      \<and> \<not> distinct (concat (map body (snakes s'))) \<and> \<not> isRunning s'"
proof -
  have dir: "resolveDirections exampleHeadOn = Inr (snakes exampleHeadOn)"
    by (simp add: resolveDirections_def exampleHeadOn_def example_defs)
  have fuel: "newFood \<lparr>running = True, newScores = [Num 0, Num 0], newFood = [(20, 20)]\<rparr> \<noteq> []
              \<or> (\<exists>d\<in>set []. \<not> isPositionOccupied (generateRandomPosition d)
                     [\<lparr>body = [(11, 10)], direction = RIGHT\<rparr>,
                      \<lparr>body = [(11, 10)], direction = LEFT\<rparr>] [])"
    by simp
  from collision_stops_game[OF dir movePhase_exampleHeadOn fuel]
  obtain s' where s': "updateGame [] exampleHeadOn = Some (Inr s')"
    "snakes s' = [\<lparr>body = [(11, 10)], direction = RIGHT\<rparr>,
                  \<lparr>body = [(11, 10)], direction = LEFT\<rparr>]"
    "\<not> distinct (concat (map body (snakes s'))) \<longrightarrow> \<not> isRunning s'"
    by blast
  then show ?thesis by (intro exI[of _ s']) simp
qed

section \<open>Food replenishment (C8)\<close>

text \<open>
  C8. The draws are doubles in \<open>[0, 1)\<close>. When the movement phase leaves food, the tick
  returns with that food list. When it leaves none and a cell of the grid is on no snake
  segment, then whatever has been drawn so far, there is a next draw on which the food loop
  returns, and the tick returns with exactly one food item, inside the grid and on no snake
  segment. More precisely: the loop returns on the draws given as soon as one of them falls
  on a free cell, with such an item; and while every draw is rejected it has not returned.
  Hence a tick that returns a state returns one with a non-empty food list.
\<close>

theorem food_never_empty_after_tick:
  assumes mp: "movePhase s = Inr (moved, vars)"
    and rng: "\<forall>d\<in>set draws. validDraw d"
  shows "(newFood vars \<noteq> [] \<longrightarrow>
            (\<exists>s'. updateGame draws s = Some (Inr s') \<and> food s' = newFood vars))
         \<and> (newFood vars = []
              \<and> (\<exists>c. \<not> outOfGrid c \<and> c \<notin> set (concat (map body moved))) \<longrightarrow>
            (\<exists>d s' p. validDraw d \<and> updateGame (draws @ [d]) s = Some (Inr s')
               \<and> snakes s' = moved \<and> food s' = [p]
               \<and> \<not> outOfGrid p \<and> p \<notin> set (concat (map body (snakes s')))))
         \<and> (newFood vars = []
              \<and> (\<exists>d\<in>set draws. \<not> isPositionOccupied (generateRandomPosition d) moved []) \<longrightarrow>
            (\<exists>s' p. updateGame draws s = Some (Inr s') \<and> snakes s' = moved \<and> food s' = [p]
               \<and> \<not> outOfGrid p \<and> p \<notin> set (concat (map body (snakes s')))))
         \<and> (newFood vars = []
              \<and> (\<forall>d\<in>set draws. isPositionOccupied (generateRandomPosition d) moved []) \<longrightarrow>
            updateGame draws s = None)
         \<and> (\<forall>s'. updateGame draws s = Some (Inr s') \<longrightarrow> food s' \<noteq> [])"
proof -
  note ug = updateGame_after_movePhase[OF mp]
  have a: "\<exists>s'. updateGame draws s = Some (Inr s') \<and> food s' = newFood vars"
    if "newFood vars \<noteq> []"
    using that by (simp add: ug replenish_cases)
  have b: "\<exists>s' p. updateGame ds s = Some (Inr s') \<and> snakes s' = moved \<and> food s' = [p]
               \<and> \<not> outOfGrid p \<and> p \<notin> set (concat (map body (snakes s')))"
    if empty: "newFood vars = []"
      and valid: "\<forall>d\<in>set ds. validDraw d"
      and free: "\<exists>d\<in>set ds. \<not> isPositionOccupied (generateRandomPosition d) moved []"
    for ds
  proof -
    from generateFood_Some[OF free] obtain p where p: "generateFood moved [] ds = Some p"
      by blast
    from generateFood_SomeD[OF p] obtain d where
      free_p: "\<not> isPositionOccupied p moved []" and d: "d \<in> set ds" "p = generateRandomPosition d"
      by blast
    from valid d have "\<not> outOfGrid p" by (simp add: generateRandomPosition_in_grid)
    moreover from free_p have "p \<notin> set (concat (map body moved))"
      by (simp add: isPositionOccupied_iff)
    ultimately show ?thesis using empty p by (cases p) (simp add: ug replenish_cases)
  qed
  have c: "\<exists>d s' p. validDraw d \<and> updateGame (draws @ [d]) s = Some (Inr s')
               \<and> snakes s' = moved \<and> food s' = [p]
               \<and> \<not> outOfGrid p \<and> p \<notin> set (concat (map body (snakes s')))"
    if empty: "newFood vars = []"
      and cell: "\<exists>c. \<not> outOfGrid c \<and> c \<notin> set (concat (map body moved))"
  proof -
    from cell obtain c where c: "\<not> outOfGrid c" "c \<notin> set (concat (map body moved))" by blast
    from generateRandomPosition_onto[OF c(1)] obtain d where
      d: "validDraw d" "generateRandomPosition d = c" by blast
    from c(2) d(2) have "\<not> isPositionOccupied (generateRandomPosition d) moved []"
      by (simp add: isPositionOccupied_iff)
    then have free: "\<exists>e\<in>set (draws @ [d]). \<not> isPositionOccupied (generateRandomPosition e) moved []"
      by simp
    from rng d(1) have valid: "\<forall>e\<in>set (draws @ [d]). validDraw e" by simp
    from b[OF empty valid free] d(1) show ?thesis by blast
  qed
  have e: "updateGame draws s = None"
    if "newFood vars = []"
      and "\<forall>d\<in>set draws. isPositionOccupied (generateRandomPosition d) moved []"
  proof -
    from that(2) have "generateFood moved [] draws = None"
      by (simp add: generateFood_None_iff)
    with that(1) show ?thesis by (simp add: ug replenish_cases)
  qed
  have f: "food s' \<noteq> []" if "updateGame draws s = Some (Inr s')" for s'
    using that by (auto simp: ug replenish_cases split: option.splits if_splits)
  from a b[OF _ rng] c e f show ?thesis by blast
qed

theorem food_never_empty_after_tick_witness:
  "list_all validDraw exampleDraws
   \<and> map generateRandomPosition exampleDraws = [(6, 5), (20, 15)]
   \<and> updateGame exampleDraws exampleEatLast =
       Some (Inr (exampleEatLast\<lparr>snakes := [\<lparr>body = [(6, 5), (5, 5)], direction = RIGHT\<rparr>,
                                            \<lparr>body = [(33, 24)], direction = LEFT\<rparr>],
                                 food := [(20, 15)], scores := [Num 1, Num 0]\<rparr>))
   \<and> \<not> outOfGrid (20, 15)"
proof -
  have rng: "\<forall>d\<in>set exampleDraws. validDraw d"
    using exampleDraws_valid by (simp add: list_all_iff)
  have pos: "map generateRandomPosition exampleDraws = [(6, 5), (20, 15)]"
    by (simp add: exampleDraws_def exampleDraws_positions)
  have "(1 / 2, 1 / 2) \<in> set exampleDraws" by (simp add: exampleDraws_def)
  moreover have "\<not> isPositionOccupied (generateRandomPosition (1 / 2, 1 / 2))
               [\<lparr>body = [(6, 5), (5, 5)], direction = RIGHT\<rparr>,
                \<lparr>body = [(33, 24)], direction = LEFT\<rparr>] []"
    by (simp add: exampleDraws_positions isPositionOccupied_def)
  ultimately have free: "newFood \<lparr>running = True, newScores = [Num 1, Num 0], newFood = []\<rparr> = []
     \<and> (\<exists>d\<in>set exampleDraws.
           \<not> isPositionOccupied (generateRandomPosition d)
               [\<lparr>body = [(6, 5), (5, 5)], direction = RIGHT\<rparr>,
                \<lparr>body = [(33, 24)], direction = LEFT\<rparr>] [])"
    by auto
  from food_never_empty_after_tick[OF movePhase_exampleEatLast rng] free
  obtain s' p where "updateGame exampleDraws exampleEatLast = Some (Inr s')"
    "food s' = [p]" "\<not> outOfGrid p"
    by blast
  with updateGame_exampleEatLast have "\<not> outOfGrid (20, 15)" by simp
  with exampleDraws_valid pos updateGame_exampleEatLast show ?thesis by blast
qed

section \<open>The greedy heuristic on the scenario (C9)\<close>

text \<open>
  C9. The snake's head is \<open>(10, 10)\<close>, it heads right, and the only food is at \<open>(10, 5)\<close>.
  Nothing is in the way of the cell above the head: no segment of either snake is on
  \<open>(10, 9)\<close>, and the other snake's predicted head is not \<open>(10, 9)\<close>. Then the heuristic
  returns \<open>UP\<close>: the reverse direction \<open>LEFT\<close> is not a candidate, \<open>UP\<close> is, and \<open>UP\<close> is
  strictly closer to the food than any other direction. The last conjunct is the tie rule
  of the choice, for any candidates \<open>c0 # cs\<close>, position and target: the chosen candidate
  is the first of the list at minimal distance.
\<close>

theorem getNextDirection_scenario:
  assumes "body snake = (10, 10) # rest" and "direction snake = RIGHT"
    and "body otherSnake = otherHead # otherRest"
    and "(10, 9) \<notin> set (body snake)" and "(10, 9) \<notin> set (body otherSnake)"
    and "getNextPosition otherHead (direction otherSnake) \<noteq> (10, 9)"
  shows "getNextDirection snake [(10, 5)] otherSnake = Inr UP
         \<and> LEFT \<notin> set (validDirections snake otherSnake (10, 10))
         \<and> UP \<in> set (validDirections snake otherSnake (10, 10))
         \<and> (\<forall>d\<in>{DOWN, LEFT, RIGHT}.
               manhattan (getNextPosition (10, 10) UP) (10, 5)
                 < manhattan (getNextPosition (10, 10) d) (10, 5))
         \<and> (\<exists>k<length (c0 # cs).
               bestDirection (directionScore pos target c0) (map (directionScore pos target) cs)
                 = (c0 # cs) ! k
               \<and> (\<forall>j<length (c0 # cs).
                     manhattan (getNextPosition pos ((c0 # cs) ! k)) target
                       \<le> manhattan (getNextPosition pos ((c0 # cs) ! j)) target)
               \<and> (\<forall>j<k. manhattan (getNextPosition pos ((c0 # cs) ! k)) target
                           < manhattan (getNextPosition pos ((c0 # cs) ! j)) target))"
proof -
  have up: "isSafeMove (10, 9) [snake, otherSnake]"
    using assms(4,5) by (simp add: isSafeMove_iff outOfGrid_def GRID_WIDTH_def GRID_HEIGHT_def)
  have valid: "\<exists>ds. validDirections snake otherSnake (10, 10) = UP # ds \<and> set ds \<subseteq> {DOWN, RIGHT}"
    using up assms(2) by (auto simp: validDirections_def)
  then obtain ds where ds: "validDirections snake otherSnake (10, 10) = UP # ds"
    "set ds \<subseteq> {DOWN, RIGHT}" by blast
  let ?pred = "getNextPosition otherHead (direction otherSnake)"
  have filt: "\<exists>es. filteredDirections (10, 10) ?pred (UP # ds) = UP # es \<and> set es \<subseteq> {DOWN, RIGHT}"
    using assms(6) ds(2) by (auto simp: filteredDirections_def Let_def prod_eq_iff)
  then obtain es where es: "filteredDirections (10, 10) ?pred (UP # ds) = UP # es"
    "set es \<subseteq> {DOWN, RIGHT}" by blast
  have tgt: "targetFood (10, 10) (10, 5) [(10, 5)] = (10, 5)"
    by (simp add: targetFood_def)
  have best: "bestDirection (UP, - 4) (map (directionScore (10, 10) (10, 5)) es) = UP"
    using es(2)
  proof (induction es)
    case Nil
    then show ?case by (simp add: bestDirection_def)
  next
    case (Cons e es)
    then have "e = DOWN \<or> e = RIGHT" by auto
    then have "directionScore (10, 10) (10, 5) e = (e, - 6)"
      by (auto simp: directionScore_def manhattan_def)
    with Cons show ?case by (simp add: bestDirection_def)
  qed
  have "getNextDirection snake [(10, 5)] otherSnake = Inr UP"
    using assms(1,3) ds(1) es(1) tgt best
    by (simp add: getNextDirection_def Let_def directionScore_def manhattan_def)
  moreover have "LEFT \<notin> set (validDirections snake otherSnake (10, 10))"
    using ds by auto
  moreover have "UP \<in> set (validDirections snake otherSnake (10, 10))"
    using ds by simp
  moreover have "\<forall>d\<in>{DOWN, LEFT, RIGHT}.
               manhattan (getNextPosition (10, 10) UP) (10, 5)
                 < manhattan (getNextPosition (10, 10) d) (10, 5)"
    by (simp add: manhattan_def)
  ultimately show ?thesis using bestDirection_first_closest[of c0 cs pos target] by blast
qed

theorem getNextDirection_scenario_witness:
  "getNextDirection exampleAiSnake [(10, 5)] exampleOtherSnake = Inr UP"
  using getNextDirection_scenario[of exampleAiSnake "[]" exampleOtherSnake "(30, 20)" "[]"]
  by (simp add: exampleAiSnake_def exampleOtherSnake_def)

section \<open>Both snakes eat in one tick (C10)\<close>

text \<open>
  C10. Both new heads are in the grid and on food, at the first-match indices \<open>ia\<close> and
  \<open>ib\<close> of the food list of before the tick, and the indices differ. Then the movement
  phase leaves that food list without index \<open>ib\<close> only: the item snake 0 ate is still in
  it. Both snakes grow by their new head and both scores go up by one. The list is not
  empty, so nothing is spawned and the tick returns it.
\<close>

theorem both_snakes_eat:
  assumes dir: "resolveDirections s = Inr [a, b]"
    and ha: "newHead a = Some ha" "\<not> outOfGrid ha"
    and hb: "newHead b = Some hb" "\<not> outOfGrid hb"
    and ia: "findIndex (\<lambda>f. f = ha) (food s) = Some ia"
    and ib: "findIndex (\<lambda>f. f = hb) (food s) = Some ib"
    and items: "ia \<noteq> ib"
    and sc: "scores s = [Num x, Num y]"
  shows "movePhase s =
           Inr ([a\<lparr>body := ha # body a\<rparr>, b\<lparr>body := hb # body b\<rparr>],
                \<lparr>running = isRunning s, newScores = [Num (x + 1), Num (y + 1)],
                 newFood = take ib (food s) @ drop (Suc ib) (food s)\<rparr>)
         \<and> food s ! ia = ha \<and> food s ! ib = hb
         \<and> ha \<in> set (take ib (food s) @ drop (Suc ib) (food s))
         \<and> length (take ib (food s) @ drop (Suc ib) (food s)) = length (food s) - 1
         \<and> (\<exists>s'. updateGame draws s = Some (Inr s')
                \<and> map body (snakes s') = [ha # body (snakes s ! 0), hb # body (snakes s ! 1)]
                \<and> scores s' = [Num (x + 1), Num (y + 1)]
                \<and> food s' = take ib (food s) @ drop (Suc ib) (food s))"
proof -
  define fs where "fs = take ib (food s) @ drop (Suc ib) (food s)"
  define moved where "moved = [a\<lparr>body := ha # body a\<rparr>, b\<lparr>body := hb # body b\<rparr>]"
  define vars where
    "vars = \<lparr>running = isRunning s, newScores = [Num (x + 1), Num (y + 1)], newFood = fs\<rparr>"
  have mp: "movePhase s = Inr (moved, vars)"
    by (simp add: movePhase_def dir moveSnake_eats[OF ha ia] moveSnake_eats[OF hb ib]
        incrementAt_def sc fs_def moved_def vars_def)
  from findIndex_SomeD[OF ia] have a_at: "ia < length (food s)" "food s ! ia = ha" by simp_all
  from findIndex_SomeD[OF ib] have b_at: "ib < length (food s)" "food s ! ib = hb" by simp_all
  from nth_in_removed[OF a_at(1) items] a_at(2) have still: "ha \<in> set fs" by (simp add: fs_def)
  from b_at(1) have len: "length fs = length (food s) - 1" by (simp add: fs_def)
  from still have ne: "fs \<noteq> []" by (metis empty_iff list.set(1))
  then have rp: "replenish draws moved (newFood vars) = Some fs"
    by (simp add: replenish_cases vars_def)
  from resolveDirections_bodies[OF dir] have "map body (snakes s) = [body a, body b]" by simp
  then have bodies: "body (snakes s ! 0) = body a" "body (snakes s ! 1) = body b"
    by (metis length_map nth_map length_Cons list.size(3) nth_Cons_0 zero_less_Suc,
        metis One_nat_def length_map nth_map length_Cons list.size(3) nth_Cons_0 nth_Cons_Suc
          lessI)
  have "\<exists>s'. updateGame draws s = Some (Inr s')
          \<and> map body (snakes s') = [ha # body (snakes s ! 0), hb # body (snakes s ! 1)]
          \<and> scores s' = [Num (x + 1), Num (y + 1)] \<and> food s' = fs"
    using bodies by (simp add: updateGame_after_movePhase[OF mp] rp) (simp add: moved_def vars_def)
  with mp a_at b_at still len show ?thesis
    unfolding fs_def moved_def vars_def by blast
qed

theorem both_snakes_eat_witness:
  "movePhase exampleBothEat =
     Inr ([\<lparr>body = [(6, 5), (5, 5)], direction = RIGHT\<rparr>,
           \<lparr>body = [(33, 24), (34, 24)], direction = LEFT\<rparr>],
          \<lparr>running = True, newScores = [Num 1, Num 1], newFood = [(6, 5)]\<rparr>)
   \<and> (\<exists>s'. updateGame [] exampleBothEat = Some (Inr s')
          \<and> map body (snakes s') = [[(6, 5), (5, 5)], [(33, 24), (34, 24)]]
          \<and> scores s' = [Num 1, Num 1] \<and> food s' = [(6, 5)])"
proof -
  have dir: "resolveDirections exampleBothEat =
               Inr [\<lparr>body = [(5, 5)], direction = RIGHT\<rparr>, \<lparr>body = [(34, 24)], direction = LEFT\<rparr>]"
    by (simp add: resolveDirections_def exampleBothEat_def example_defs)
  have ha: "newHead \<lparr>body = [(5, 5)], direction = RIGHT\<rparr> = Some (6, 5)" "\<not> outOfGrid (6, 5)"
    and hb: "newHead \<lparr>body = [(34, 24)], direction = LEFT\<rparr> = Some (33, 24)" "\<not> outOfGrid (33, 24)"
    by (simp_all add: newHead_def outOfGrid_def GRID_WIDTH_def GRID_HEIGHT_def)
  have ia: "findIndex (\<lambda>f. f = (6, 5)) (food exampleBothEat) = Some 0"
    and ib: "findIndex (\<lambda>f. f = (33, 24)) (food exampleBothEat) = Some 1"
    by (simp_all add: exampleBothEat_def example_defs)
  have sc: "scores exampleBothEat = [Num 0, Num 0]"
    by (simp add: exampleBothEat_def example_defs)
  from both_snakes_eat[OF dir ha hb ia ib _ sc, of "[]"]
  show ?thesis by (simp add: exampleBothEat_def example_defs)
qed

end
